theory Spec2Isabelle
  imports Main "HOL-Library.Multiset"
begin

section \<open>Strings as the Go code sees them\<close>

text \<open>
  A Go string is a sequence of bytes, read as UTF-8 where runes matter; it is modelled as
  a \<open>string\<close> (a list of \<open>char\<close>, one per byte). The functions of Go's \<open>strings\<close>
  package that the analyzer calls are written out below.
\<close>

definition upper_letters :: string where
  "upper_letters = ''ABCDEFGHIJKLMNOPQRSTUVWXYZ''"

definition lower_letters :: string where
  "lower_letters = ''abcdefghijklmnopqrstuvwxyz''"

definition digit_chars :: string where
  "digit_chars = ''0123456789''"

definition toUpperChar :: "char \<Rightarrow> char" where
  "toUpperChar c = (case map_of (zip lower_letters upper_letters) c of Some d \<Rightarrow> d | None \<Rightarrow> c)"

definition toLowerChar :: "char \<Rightarrow> char" where
  "toLowerChar c = (case map_of (zip upper_letters lower_letters) c of Some d \<Rightarrow> d | None \<Rightarrow> c)"

text \<open>
  \<open>strings.ToUpper\<close> and \<open>strings.ToLower\<close> first look whether every byte of the string
  is below \<open>utf8.RuneSelf\<close> (\<open>0x80\<close>). Such a string they convert byte by byte, touching
  the letters \<open>a-z\<close> or \<open>A-Z\<close> only. Any other string they hand to
  \<open>strings.Map\<close> with \<open>unicode.ToUpper\<close> or \<open>unicode.ToLower\<close>, which follow the case
  tables of the Unicode standard (mapping, for one, the long s \<open>U+017F\<close> to \<open>S\<close> and
  the Kelvin sign \<open>U+212A\<close> to \<open>k\<close>). These two maps on strings are not written out:
  they are a parameter, \<open>unicode\<close>, of every function that converts case, and each
  property below holds whatever the two maps return.
\<close>

record Unicode =
  mapToUpper :: "string \<Rightarrow> string"
  mapToLower :: "string \<Rightarrow> string"

definition isASCII :: "string \<Rightarrow> bool" where
  "isASCII s = list_all (\<lambda>c. of_char c < (0x80 :: nat)) s"

definition ToUpper :: "Unicode \<Rightarrow> string \<Rightarrow> string" where
  "ToUpper unicode s = (if isASCII s then map toUpperChar s else mapToUpper unicode s)"

definition ToLower :: "Unicode \<Rightarrow> string \<Rightarrow> string" where
  "ToLower unicode s = (if isASCII s then map toLowerChar s else mapToLower unicode s)"

fun HasPrefix :: "string \<Rightarrow> string \<Rightarrow> bool" where
  "HasPrefix s [] = True"
| "HasPrefix [] (p # ps) = False"
| "HasPrefix (c # cs) (p # ps) = (c = p \<and> HasPrefix cs ps)"

definition HasSuffix :: "string \<Rightarrow> string \<Rightarrow> bool" where
  "HasSuffix s suffix = HasPrefix (rev s) (rev suffix)"

definition TrimPrefix :: "string \<Rightarrow> string \<Rightarrow> string" where
  "TrimPrefix s prefix = (if HasPrefix s prefix then drop (length prefix) s else s)"

text \<open>
  \<open>strings.TrimSpace\<close> and \<open>strings.Fields\<close> work on runes: white space is what
  \<open>unicode.IsSpace\<close> accepts, the six ASCII characters tab, line feed, vertical tab,
  form feed, carriage return and space, and \<open>U+0085\<close>, \<open>U+00A0\<close>, \<open>U+1680\<close>,
  \<open>U+2000\<close> to \<open>U+200A\<close>, \<open>U+2028\<close>, \<open>U+2029\<close>, \<open>U+202F\<close>, \<open>U+205F\<close> and
  \<open>U+3000\<close>. \<open>spaceRunes\<close> lists their UTF-8 encodings. Go's decoder accepts no other
  encoding of a rune and takes a byte that starts no valid encoding as a rune of its own
  (\<open>U+FFFD\<close>, which is not white space), one byte wide. So a white-space rune stands at
  a position exactly when one of these encodings does, and since no encoding in the list
  starts with a continuation byte, none can start inside another rune.
\<close>

definition spaceRunes :: "string list" where
  "spaceRunes =
     [[CHR 0x09], [CHR 0x0A], [CHR 0x0B], [CHR 0x0C], [CHR 0x0D], [CHR 0x20],
      [CHR 0xC2, CHR 0x85], [CHR 0xC2, CHR 0xA0],
      [CHR 0xE1, CHR 0x9A, CHR 0x80],
      [CHR 0xE2, CHR 0x80, CHR 0x80], [CHR 0xE2, CHR 0x80, CHR 0x81],
      [CHR 0xE2, CHR 0x80, CHR 0x82], [CHR 0xE2, CHR 0x80, CHR 0x83],
      [CHR 0xE2, CHR 0x80, CHR 0x84], [CHR 0xE2, CHR 0x80, CHR 0x85],
      [CHR 0xE2, CHR 0x80, CHR 0x86], [CHR 0xE2, CHR 0x80, CHR 0x87],
      [CHR 0xE2, CHR 0x80, CHR 0x88], [CHR 0xE2, CHR 0x80, CHR 0x89],
      [CHR 0xE2, CHR 0x80, CHR 0x8A],
      [CHR 0xE2, CHR 0x80, CHR 0xA8], [CHR 0xE2, CHR 0x80, CHR 0xA9],
      [CHR 0xE2, CHR 0x80, CHR 0xAF],
      [CHR 0xE2, CHR 0x81, CHR 0x9F],
      [CHR 0xE3, CHR 0x80, CHR 0x80]]"

text \<open>The width in bytes of the white-space rune that a string starts with, or ends
  with; 0 when there is none.\<close>

definition leadingSpace :: "string \<Rightarrow> nat" where
  "leadingSpace s = (case find (HasPrefix s) spaceRunes of None \<Rightarrow> 0 | Some rune \<Rightarrow> length rune)"

definition trailingSpace :: "string \<Rightarrow> nat" where
  "trailingSpace s = (case find (HasSuffix s) spaceRunes of None \<Rightarrow> 0 | Some rune \<Rightarrow> length rune)"

lemma HasPrefix_iff: "HasPrefix s p \<longleftrightarrow> take (length p) s = p"
  by (induction s p rule: HasPrefix.induct) auto

lemma HasPrefix_length: "HasPrefix s p \<Longrightarrow> length p \<le> length s"
  by (induction s p rule: HasPrefix.induct) auto

lemma spaceRunes_not_empty: "rune \<in> set spaceRunes \<Longrightarrow> rune \<noteq> []"
  by (auto simp: spaceRunes_def)

lemma leadingSpace_cases:
  obtains (none) "leadingSpace s = 0" "\<forall>rune \<in> set spaceRunes. \<not> HasPrefix s rune"
  | (some) rune where "rune \<in> set spaceRunes" "HasPrefix s rune" "leadingSpace s = length rune"
      "0 < length rune"
proof (cases "find (HasPrefix s) spaceRunes")
  case None
  then have "leadingSpace s = 0" by (simp add: leadingSpace_def)
  moreover from None have "\<forall>rune \<in> set spaceRunes. \<not> HasPrefix s rune"
    by (simp add: find_None_iff)
  ultimately show ?thesis by (rule none)
next
  case (Some rune)
  then have "rune \<in> set spaceRunes" "HasPrefix s rune"
    by (auto simp: find_Some_iff)
  moreover from Some have "leadingSpace s = length rune" by (simp add: leadingSpace_def)
  moreover from \<open>rune \<in> set spaceRunes\<close> have "0 < length rune"
    using spaceRunes_not_empty [of rune] by simp
  ultimately show ?thesis by (rule some)
qed

lemma leadingSpace_le: "leadingSpace s \<le> length s"
  by (cases s rule: leadingSpace_cases) (auto dest: HasPrefix_length)

lemma trailingSpace_cases:
  obtains (none) "trailingSpace s = 0" "\<forall>rune \<in> set spaceRunes. \<not> HasSuffix s rune"
  | (some) rune where "rune \<in> set spaceRunes" "HasSuffix s rune" "trailingSpace s = length rune"
      "0 < length rune"
proof (cases "find (HasSuffix s) spaceRunes")
  case None
  then have "trailingSpace s = 0" by (simp add: trailingSpace_def)
  moreover from None have "\<forall>rune \<in> set spaceRunes. \<not> HasSuffix s rune"
    by (simp add: find_None_iff)
  ultimately show ?thesis by (rule none)
next
  case (Some rune)
  then have "rune \<in> set spaceRunes" "HasSuffix s rune"
    by (auto simp: find_Some_iff)
  moreover from Some have "trailingSpace s = length rune" by (simp add: trailingSpace_def)
  moreover from \<open>rune \<in> set spaceRunes\<close> have "0 < length rune"
    using spaceRunes_not_empty [of rune] by simp
  ultimately show ?thesis by (rule some)
qed

lemma trailingSpace_le: "trailingSpace s \<le> length s"
  by (cases s rule: trailingSpace_cases) (auto simp: HasSuffix_def dest: HasPrefix_length)

text \<open>\<open>strings.TrimLeftFunc(s, unicode.IsSpace)\<close> and
  \<open>strings.TrimRightFunc(s, unicode.IsSpace)\<close> take white-space runes off one end as long
  as there is one; \<open>strings.TrimSpace\<close> does both.\<close>

function TrimLeftSpace :: "string \<Rightarrow> string" where
  "TrimLeftSpace s =
     (if leadingSpace s = 0 then s else TrimLeftSpace (drop (leadingSpace s) s))"
  by pat_completeness auto
termination
proof (relation "measure length")
  fix s :: string
  assume "leadingSpace s \<noteq> 0"
  with leadingSpace_le [of s] show "(drop (leadingSpace s) s, s) \<in> measure length" by simp
qed simp

function TrimRightSpace :: "string \<Rightarrow> string" where
  "TrimRightSpace s =
     (if trailingSpace s = 0 then s else TrimRightSpace (take (length s - trailingSpace s) s))"
  by pat_completeness auto
termination
proof (relation "measure length")
  fix s :: string
  assume "trailingSpace s \<noteq> 0"
  with trailingSpace_le [of s] show "(take (length s - trailingSpace s) s, s) \<in> measure length"
    by simp
qed simp

declare TrimLeftSpace.simps [simp del] TrimRightSpace.simps [simp del]

definition TrimSpace :: "string \<Rightarrow> string" where
  "TrimSpace s = TrimRightSpace (TrimLeftSpace s)"

text \<open>\<open>strings.TrimRight(s, cutset)\<close> for a cut set of ASCII characters, which is how the
  analyzer calls it: drop the trailing bytes that are in the cut set.\<close>

definition TrimRight :: "string \<Rightarrow> string \<Rightarrow> string" where
  "TrimRight s cutset = rev (dropWhile (\<lambda>c. c \<in> set cutset) (rev s))"

text \<open>\<open>strings.Split(s, sep)\<close> for a separator of one byte, which is how the analyzer
  calls it; splitting the empty string gives one empty part. \<open>strings.Contains\<close> looks for
  a substring.\<close>

fun Split :: "string \<Rightarrow> char \<Rightarrow> string list" where
  "Split [] sep = [[]]"
| "Split (c # cs) sep =
     (if c = sep then [] # Split cs sep
      else (case Split cs sep of [] \<Rightarrow> [[c]] | p # ps \<Rightarrow> (c # p) # ps))"

fun Contains :: "string \<Rightarrow> string \<Rightarrow> bool" where
  "Contains [] substr = (substr = [])"
| "Contains (c # cs) substr = (HasPrefix (c # cs) substr \<or> Contains cs substr)"

text \<open>\<open>strings.Join(parts, " ")\<close>.\<close>

fun Join :: "string list \<Rightarrow> string \<Rightarrow> string" where
  "Join [] sep = []"
| "Join [p] sep = p"
| "Join (p # q # ps) sep = p @ sep @ Join (q # ps) sep"

text \<open>\<open>strings.Fields(s)\<close>: the maximal runs of runes that are not white space, in
  order. \<open>cur\<close> holds the bytes of the field that is being read.\<close>

function fieldsFrom :: "string \<Rightarrow> string \<Rightarrow> string list" where
  "fieldsFrom cur s =
     (if s = [] then (if cur = [] then [] else [cur])
      else if leadingSpace s \<noteq> 0
        then (if cur = [] then fieldsFrom [] (drop (leadingSpace s) s)
              else cur # fieldsFrom [] (drop (leadingSpace s) s))
      else fieldsFrom (cur @ [hd s]) (tl s))"
  by pat_completeness auto
termination
proof (relation "measure (\<lambda>(cur, s). length s)")
  fix cur s :: string
  assume "leadingSpace s \<noteq> 0"
  with leadingSpace_le [of s]
  show "(([], drop (leadingSpace s) s), (cur, s)) \<in> measure (\<lambda>(cur, s). length s)" by simp
  then show "(([], drop (leadingSpace s) s), (cur, s)) \<in> measure (\<lambda>(cur, s). length s)" .
qed auto

declare fieldsFrom.simps [simp del]

definition Fields :: "string \<Rightarrow> string list" where
  "Fields s = fieldsFrom [] s"

section \<open>Rules, severities and the parser's nodes\<close>

text \<open>\<open>Severity\<close> is a Go string type with three named constants; any other string,
  the empty one included, is still a value of the type.\<close>

type_synonym Severity = string

definition SeverityFatal :: Severity where "SeverityFatal = ''fatal''"
definition SeverityError :: Severity where "SeverityError = ''error''"
definition SeverityWarning :: Severity where "SeverityWarning = ''warning''"

record Rule =
  StartLine :: int
  EndLine :: int
  Code :: string
  Description :: string
  Url :: string
  Severity :: Severity

text \<open>
  The instruction nodes come from the Dockerfile parser of BuildKit, which is not part of
  this repository. A top-level node carries the keyword as written (\<open>Value\<close>), the
  original line, its flags, the attribute keys, its line range, and the linked list of
  argument nodes (\<open>Next\<close>), each with a value and flags of its own.
\<close>

record ArgNode =
  ArgValue :: string
  ArgFlags :: "string list"

record Node =
  Value :: string
  Next :: "ArgNode list"
  Attributes :: "string list"
  Original :: string
  Flags :: "string list"
  NodeStartLine :: int
  NodeEndLine :: int

definition NewErrorRule :: "Node \<Rightarrow> string \<Rightarrow> string \<Rightarrow> string \<Rightarrow> Rule" where
  "NewErrorRule node code description url =
     \<lparr>StartLine = NodeStartLine node, EndLine = NodeEndLine node, Code = code,
      Description = description, Url = url, Severity = SeverityError\<rparr>"

definition NewWarningRule :: "Node \<Rightarrow> string \<Rightarrow> string \<Rightarrow> string \<Rightarrow> Rule" where
  "NewWarningRule node code description url =
     \<lparr>StartLine = NodeStartLine node, EndLine = NodeEndLine node, Code = code,
      Description = description, Url = url, Severity = SeverityWarning\<rparr>"

definition NewFatalRule :: "Node \<Rightarrow> string \<Rightarrow> string \<Rightarrow> string \<Rightarrow> Rule" where
  "NewFatalRule node code description url =
     \<lparr>StartLine = NodeStartLine node, EndLine = NodeEndLine node, Code = code,
      Description = description, Url = url, Severity = SeverityFatal\<rparr>"

definition invalidInstructionCode :: string where
  "invalidInstructionCode = ''InvalidInstruction''"

definition invalidInstructionRule :: "Node \<Rightarrow> string \<Rightarrow> Rule" where
  "invalidInstructionRule node description =
     NewErrorRule node invalidInstructionCode description ''''"

section \<open>The scorer\<close>

text \<open>
  \<open>calculateScore\<close> walks the rules once with two counters and leaves at the first fatal
  rule. The counters are Go \<open>int\<close>s (64 bits); a rule list long enough to overflow
  \<open>errorCount * 15\<close> does not fit in memory, so they are modelled as unbounded integers.
\<close>

fun calculateScoreLoop :: "Rule list \<Rightarrow> int \<Rightarrow> int \<Rightarrow> int" where
  "calculateScoreLoop [] errorCount warningCount =
     (let score = 100 - (errorCount * 15 + warningCount * 5)
      in if score < 0 then 0 else score)"
| "calculateScoreLoop (rule # rules) errorCount warningCount =
     (if Severity rule = SeverityFatal then 0
      else if Severity rule = SeverityError
        then calculateScoreLoop rules (errorCount + 1) warningCount
      else if Severity rule = SeverityWarning
        then calculateScoreLoop rules errorCount (warningCount + 1)
      else calculateScoreLoop rules errorCount warningCount)"

definition calculateScore :: "Rule list \<Rightarrow> int" where
  "calculateScore rules = calculateScoreLoop rules 0 0"

text \<open>The number of rules of a list that carry a given severity.\<close>

definition countSeverity :: "Severity \<Rightarrow> Rule list \<Rightarrow> int" where
  "countSeverity sev rules = int (length (filter (\<lambda>r. Severity r = sev) rules))"

definition hasFatal :: "Rule list \<Rightarrow> bool" where
  "hasFatal rules \<longleftrightarrow> list_ex (\<lambda>r. Severity r = SeverityFatal) rules"

section \<open>The continuation scanner\<close>

text \<open>
  \<open>checkEmptyContinuations\<close> works on the raw text, split at line feeds. The outer loop
  runs over the 0-based index \<open>i\<close>; when it reports a line it steps over the empty line
  that follows. The inner loop walks back from \<open>j = i\<close> to \<open>0\<close> and stops at the first
  line that is not blank and does not end in a backslash; when there is none the start
  line stays \<open>i + 1\<close>.
\<close>

definition backslash :: string where
  "backslash = [CHR 0x5C]"

definition lineCutset :: string where
  "lineCutset = [CHR 0x20, CHR 0x09, CHR 0x0D]"

definition endsWithBackslash :: "string \<Rightarrow> bool" where
  "endsWithBackslash line = HasSuffix (TrimRight line lineCutset) backslash"

fun searchInstructionLine :: "string list \<Rightarrow> nat \<Rightarrow> int \<Rightarrow> int" where
  "searchInstructionLine lines 0 instructionLine =
     (let prevLine = TrimSpace (lines ! 0)
      in if prevLine \<noteq> [] \<and> \<not> endsWithBackslash (lines ! 0) then int 0 + 1
         else instructionLine)"
| "searchInstructionLine lines (Suc j) instructionLine =
     (let prevLine = TrimSpace (lines ! Suc j)
      in if prevLine \<noteq> [] \<and> \<not> endsWithBackslash (lines ! Suc j) then int (Suc j) + 1
         else searchInstructionLine lines j instructionLine)"

definition noEmptyContinuationRule :: "int \<Rightarrow> int \<Rightarrow> Rule" where
  "noEmptyContinuationRule instructionLine endLine =
     \<lparr>StartLine = instructionLine, EndLine = endLine, Code = ''NoEmptyContinuation'',
      Description = ''Empty continuation line found. Empty lines following a backslash continuation are deprecated and will cause errors in future Docker versions.'',
      Url = ''https://docs.docker.com/reference/build-checks/no-empty-continuation/'',
      Severity = SeverityWarning\<rparr>"

function checkEmptyContinuationsLoop :: "string list \<Rightarrow> nat \<Rightarrow> Rule list \<Rightarrow> Rule list" where
  "checkEmptyContinuationsLoop lines i rules =
     (if i < length lines then
        (if \<not> endsWithBackslash (lines ! i) then checkEmptyContinuationsLoop lines (i + 1) rules
         else if i + 1 \<ge> length lines then checkEmptyContinuationsLoop lines (i + 1) rules
         else
           (let nextLine = lines ! (i + 1);
                trimmedNextLine = TrimSpace nextLine
            in if trimmedNextLine = [] then
                 (let instructionLine = searchInstructionLine lines i (int i + 1)
                  in checkEmptyContinuationsLoop lines (i + 1 + 1)
                       (rules @ [noEmptyContinuationRule instructionLine (int i + 2)]))
               else checkEmptyContinuationsLoop lines (i + 1) rules))
      else rules)"
  by pat_completeness auto
termination
  by (relation "measure (\<lambda>(lines, i, rules). length lines - i)") auto

declare checkEmptyContinuationsLoop.simps [simp del]

definition checkEmptyContinuations :: "string \<Rightarrow> Rule list" where
  "checkEmptyContinuations dockerfileContent =
     checkEmptyContinuationsLoop (Split dockerfileContent (CHR 0x0A)) 0 []"

text \<open>For stating the properties: what the scanner reports for the line with 0-based
  index \<open>k\<close>.\<close>

definition continuationRuleAt :: "string list \<Rightarrow> nat \<Rightarrow> Rule list" where
  "continuationRuleAt lines k =
     (if endsWithBackslash (lines ! k) \<and> k + 1 < length lines \<and> TrimSpace (lines ! (k + 1)) = []
      then [noEmptyContinuationRule (searchInstructionLine lines k (int k + 1)) (int k + 2)]
      else [])"

section \<open>Components of a FROM instruction\<close>

text \<open>
  \<open>extractFromComponents\<close> returns the image reference, the stage name and the platform:
  the platform is the value of the first flag that starts with \<open>--platform=\<close>, the image
  reference is the first argument, and the stage name is the argument after an \<open>AS\<close>
  in second place (in any letter case).
\<close>

fun firstPlatformFlag :: "string list \<Rightarrow> string" where
  "firstPlatformFlag [] = []"
| "firstPlatformFlag (flag # flags) =
     (if HasPrefix flag ''--platform='' then TrimPrefix flag ''--platform=''
      else firstPlatformFlag flags)"

definition extractFromComponents :: "Unicode \<Rightarrow> Node \<Rightarrow> string \<times> string \<times> string" where
  "extractFromComponents unicode node =
     (let platformFlag = firstPlatformFlag (Flags node)
      in case Next node of
           [] \<Rightarrow> ([], [], platformFlag)
         | current # rest \<Rightarrow>
             (let imageRef = ArgValue current
              in case rest of
                   [] \<Rightarrow> (imageRef, [], platformFlag)
                 | asNode # rest' \<Rightarrow>
                     (if ToUpper unicode (ArgValue asNode) = ''AS''
                      then (case rest' of
                              [] \<Rightarrow> (imageRef, [], platformFlag)
                            | nameNode # _ \<Rightarrow> (imageRef, ArgValue nameNode, platformFlag))
                      else (imageRef, [], platformFlag))))"

definition fromImageRef :: "Unicode \<Rightarrow> Node \<Rightarrow> string" where
  "fromImageRef unicode node = fst (extractFromComponents unicode node)"

definition fromStageName :: "Unicode \<Rightarrow> Node \<Rightarrow> string" where
  "fromStageName unicode node = fst (snd (extractFromComponents unicode node))"

definition fromPlatformFlag :: "Unicode \<Rightarrow> Node \<Rightarrow> string" where
  "fromPlatformFlag unicode node = snd (snd (extractFromComponents unicode node))"

definition isInstruction :: "Unicode \<Rightarrow> string \<Rightarrow> Node \<Rightarrow> bool" where
  "isInstruction unicode keyword node \<longleftrightarrow> ToUpper unicode (Value node) = keyword"

section \<open>Duplicate stage names\<close>

text \<open>
  The pass fills a Go map from the lower-cased stage name to the list of its
  declarations and then ranges over the map. Go leaves the order in which \<open>range\<close>
  visits the keys of a map unspecified (it differs from run to run), so the model takes
  that order as an argument: \<open>keyOrder\<close> lists the keys of the map, each once.
\<close>

record stageInfo =
  originalName :: string
  startLine :: int
  endLine :: int

type_synonym stageMap = "string \<rightharpoonup> stageInfo list"

definition stageEntries :: "stageMap \<Rightarrow> string \<Rightarrow> stageInfo list" where
  "stageEntries m k = (case m k of None \<Rightarrow> [] | Some stages \<Rightarrow> stages)"

fun collectStageNames :: "Unicode \<Rightarrow> Node list \<Rightarrow> stageMap \<Rightarrow> stageMap" where
  "collectStageNames unicode [] stageNames = stageNames"
| "collectStageNames unicode (child # children) stageNames =
     (if ToUpper unicode (Value child) \<noteq> ''FROM'' then collectStageNames unicode children stageNames
      else
        (let stageName = fromStageName unicode child
         in if stageName = [] then collectStageNames unicode children stageNames
            else
              (let lowerStageName = ToLower unicode stageName
               in collectStageNames unicode children
                    (stageNames(lowerStageName \<mapsto>
                       stageEntries stageNames lowerStageName @
                         [\<lparr>originalName = stageName, startLine = NodeStartLine child,
                           endLine = NodeEndLine child\<rparr>])))))"

definition duplicateStageRule :: "stageInfo \<Rightarrow> Rule" where
  "duplicateStageRule stage =
     \<lparr>StartLine = startLine stage, EndLine = endLine stage, Code = ''DuplicateStageName'',
      Description = ''Duplicate stage name '' @ [CHR 0x27] @ originalName stage @ [CHR 0x27]
                      @ '', stage names should be unique'',
      Url = ''https://docs.docker.com/reference/build-checks/duplicate-stage-name/'',
      Severity = SeverityError\<rparr>"

fun findDuplicates :: "stageMap \<Rightarrow> string list \<Rightarrow> Rule list \<Rightarrow> Rule list" where
  "findDuplicates stageNames [] rules = rules"
| "findDuplicates stageNames (key # keys) rules =
     (let stages = stageEntries stageNames key
      in if length stages > 1
         then findDuplicates stageNames keys (rules @ map duplicateStageRule stages)
         else findDuplicates stageNames keys rules)"

definition checkDuplicateStageNames :: "Unicode \<Rightarrow> string list \<Rightarrow> Node list \<Rightarrow> Rule list" where
  "checkDuplicateStageNames unicode keyOrder children =
     (if length children = 0 then []
      else findDuplicates (collectStageNames unicode children Map.empty) keyOrder [])"

text \<open>What makes \<open>keyOrder\<close> an iteration order of the map the pass has built.\<close>

definition validKeyOrder :: "Unicode \<Rightarrow> string list \<Rightarrow> Node list \<Rightarrow> bool" where
  "validKeyOrder unicode keyOrder children \<longleftrightarrow>
     distinct keyOrder \<and> set keyOrder = dom (collectStageNames unicode children Map.empty)"

text \<open>
  For stating the properties: the stage declarations of a Dockerfile in the order of its
  FROM instructions, and those of them that share a lower-cased name.
\<close>

definition stageDeclarations :: "Unicode \<Rightarrow> Node list \<Rightarrow> stageInfo list" where
  "stageDeclarations unicode children =
     map (\<lambda>child. \<lparr>originalName = fromStageName unicode child, startLine = NodeStartLine child,
                    endLine = NodeEndLine child\<rparr>)
       (filter (\<lambda>child. ToUpper unicode (Value child) = ''FROM'' \<and> fromStageName unicode child \<noteq> []) children)"

definition declarationsOf :: "Unicode \<Rightarrow> string \<Rightarrow> Node list \<Rightarrow> stageInfo list" where
  "declarationsOf unicode key children =
     filter (\<lambda>stage. ToLower unicode (originalName stage) = key) (stageDeclarations unicode children)"

definition declaredTwice :: "Unicode \<Rightarrow> Node list \<Rightarrow> stageInfo \<Rightarrow> bool" where
  "declaredTwice unicode children stage \<longleftrightarrow>
     length (declarationsOf unicode (ToLower unicode (originalName stage)) children) > 1"

section \<open>Constant platform flags\<close>

text \<open>
  \<open>checkPlatformConstant\<close>: a platform value is a constant when, trimmed, it is not
  empty and does not start with a dollar sign.
\<close>

definition checkPlatformConstant :: "string \<Rightarrow> bool" where
  "checkPlatformConstant platform =
     (let platform' = TrimSpace platform
      in if platform' = [] then False else \<not> HasPrefix platform' ''$'')"

text \<open>\<open>extractStagePrefix\<close>: the part of a stage name before its first \<open>_\<close> or \<open>-\<close>,
  the whole name when it has neither.\<close>

fun extractStagePrefix :: "string \<Rightarrow> string" where
  "extractStagePrefix [] = []"
| "extractStagePrefix (c # cs) =
     (if c = CHR ''_'' \<or> c = CHR ''-'' then [] else c # extractStagePrefix cs)"

text \<open>
  The two Go maps of the pass only ever store \<open>true\<close>, so each is the set of its keys.
  First pass: the lower-cased stage names. Second pass: the stages marked as referenced;
  an image reference that is itself a stage name marks that stage and nothing else, any
  other one marks every stage whose prefix it starts with. Third pass: the rules.
\<close>

fun collectStageNameSet :: "Unicode \<Rightarrow> Node list \<Rightarrow> string set \<Rightarrow> string set" where
  "collectStageNameSet unicode [] stageNames = stageNames"
| "collectStageNameSet unicode (child # children) stageNames =
     (if ToUpper unicode (Value child) \<noteq> ''FROM'' then collectStageNameSet unicode children stageNames
      else
        (let stageName = fromStageName unicode child
         in if stageName \<noteq> []
            then collectStageNameSet unicode children (insert (ToLower unicode stageName) stageNames)
            else collectStageNameSet unicode children stageNames))"

fun collectReferencedStages :: "Unicode \<Rightarrow> string set \<Rightarrow> Node list \<Rightarrow> string set \<Rightarrow> string set" where
  "collectReferencedStages unicode stageNames [] referencedStages = referencedStages"
| "collectReferencedStages unicode stageNames (child # children) referencedStages =
     (if ToUpper unicode (Value child) \<noteq> ''FROM''
      then collectReferencedStages unicode stageNames children referencedStages
      else
        (let imageRef = fromImageRef unicode child
         in if imageRef = [] then collectReferencedStages unicode stageNames children referencedStages
            else
              (let imageRefLower = ToLower unicode imageRef
               in if imageRefLower \<in> stageNames
                  then collectReferencedStages unicode stageNames children
                         (insert imageRefLower referencedStages)
                  else collectReferencedStages unicode stageNames children
                         (referencedStages \<union>
                            Set.filter (\<lambda>stageName.
                              HasPrefix imageRefLower (extractStagePrefix stageName)) stageNames))))"

definition platformConstRule :: "Node \<Rightarrow> string \<Rightarrow> Rule" where
  "platformConstRule child platformFlag =
     \<lparr>StartLine = NodeStartLine child, EndLine = NodeEndLine child,
      Code = ''FromPlatformFlagConstDisallowed'',
      Description = ''FROM --platform should not use a constant value '' @ [CHR 0x27]
        @ platformFlag @ [CHR 0x27]
        @ ''. Use a variable like $BUILDPLATFORM or $TARGETPLATFORM, or specify --platform at build time instead.'',
      Url = ''https://docs.docker.com/reference/build-checks/from-platform-flag-const-disallowed/'',
      Severity = SeverityWarning\<rparr>"

fun flagConstantPlatforms :: "Unicode \<Rightarrow> string set \<Rightarrow> Node list \<Rightarrow> Rule list \<Rightarrow> Rule list" where
  "flagConstantPlatforms unicode referencedStages [] rules = rules"
| "flagConstantPlatforms unicode referencedStages (child # children) rules =
     (if ToUpper unicode (Value child) \<noteq> ''FROM''
      then flagConstantPlatforms unicode referencedStages children rules
      else
        (let stageName = fromStageName unicode child;
             platformFlag = fromPlatformFlag unicode child
         in if platformFlag = [] \<or> \<not> checkPlatformConstant platformFlag
            then flagConstantPlatforms unicode referencedStages children rules
            else if stageName \<noteq> [] \<and> ToLower unicode stageName \<in> referencedStages
            then flagConstantPlatforms unicode referencedStages children rules
            else flagConstantPlatforms unicode referencedStages children
                   (rules @ [platformConstRule child platformFlag])))"

definition checkPlatformFlagConstDisallowed :: "Unicode \<Rightarrow> Node list \<Rightarrow> Rule list" where
  "checkPlatformFlagConstDisallowed unicode children =
     (if length children = 0 then []
      else
        (let stageNames = collectStageNameSet unicode children {};
             referencedStages = collectReferencedStages unicode stageNames children {}
         in flagConstantPlatforms unicode referencedStages children []))"

text \<open>
  For stating the properties: the declared stage names and the referenced stages as the
  pass computes them, what the third loop appends for one instruction, and when an image
  reference counts as a reference to a stage (given in lower case).
\<close>

definition declaredStageNames :: "Unicode \<Rightarrow> Node list \<Rightarrow> string set" where
  "declaredStageNames unicode children = collectStageNameSet unicode children {}"

definition referencedStagesOf :: "Unicode \<Rightarrow> Node list \<Rightarrow> string set" where
  "referencedStagesOf unicode children =
     collectReferencedStages unicode (declaredStageNames unicode children) children {}"

definition platformRuleFor :: "Unicode \<Rightarrow> string set \<Rightarrow> Node \<Rightarrow> Rule list" where
  "platformRuleFor unicode referencedStages child =
     (if ToUpper unicode (Value child) = ''FROM''
         \<and> fromPlatformFlag unicode child \<noteq> [] \<and> checkPlatformConstant (fromPlatformFlag unicode child)
         \<and> \<not> (fromStageName unicode child \<noteq> [] \<and> ToLower unicode (fromStageName unicode child) \<in> referencedStages)
      then [platformConstRule child (fromPlatformFlag unicode child)] else [])"

definition referencesStage :: "Unicode \<Rightarrow> string set \<Rightarrow> string \<Rightarrow> string \<Rightarrow> bool" where
  "referencesStage unicode stageNames imageRef stage \<longleftrightarrow>
     imageRef \<noteq> []
     \<and> (if ToLower unicode imageRef \<in> stageNames then stage = ToLower unicode imageRef
        else stage \<in> stageNames \<and> HasPrefix (ToLower unicode imageRef) (extractStagePrefix stage))"

definition referencedBy :: "Unicode \<Rightarrow> Node list \<Rightarrow> nat \<Rightarrow> string \<Rightarrow> bool" where
  "referencedBy unicode children j stageName \<longleftrightarrow>
     ToUpper unicode (Value (children ! j)) = ''FROM''
     \<and> referencesStage unicode (declaredStageNames unicode children) (fromImageRef unicode (children ! j))
          (ToLower unicode stageName)"

section \<open>JSON arguments for CMD and ENTRYPOINT\<close>

fun hasShell :: "Unicode \<Rightarrow> Node list \<Rightarrow> bool" where
  "hasShell unicode [] = False"
| "hasShell unicode (child # children) =
     (if ToUpper unicode (Value child) = ''SHELL'' then True else hasShell unicode children)"

definition jsonArgsRule :: "Node \<Rightarrow> string \<Rightarrow> Rule" where
  "jsonArgsRule child instruction =
     \<lparr>StartLine = NodeStartLine child, EndLine = NodeEndLine child,
      Code = ''JSONArgsRecommended'',
      Description = ''JSON arguments recommended for '' @ instruction
        @ '' to prevent unintended behavior related to OS signals'',
      Url = ''https://docs.docker.com/reference/build-checks/json-args-recommended/'',
      Severity = SeverityWarning\<rparr>"

text \<open>The argument region of an instruction: its original line without the keyword in
  front, trimmed.\<close>

definition trimmedOriginal :: "Node \<Rightarrow> string" where
  "trimmedOriginal child = TrimSpace (TrimPrefix (Original child) (Value child))"

fun jsonArgsLoop :: "Unicode \<Rightarrow> bool \<Rightarrow> Node list \<Rightarrow> Rule list \<Rightarrow> Rule list" where
  "jsonArgsLoop unicode hasShellInstruction [] rules = rules"
| "jsonArgsLoop unicode hasShellInstruction (child # children) rules =
     (let instruction = ToUpper unicode (Value child)
      in if instruction \<noteq> ''CMD'' \<and> instruction \<noteq> ''ENTRYPOINT''
         then jsonArgsLoop unicode hasShellInstruction children rules
         else if trimmedOriginal child = []
         then jsonArgsLoop unicode hasShellInstruction children rules
         else
           (let isExecForm = HasPrefix (trimmedOriginal child) ''[''
            in if \<not> isExecForm \<and> \<not> hasShellInstruction
               then jsonArgsLoop unicode hasShellInstruction children
                      (rules @ [jsonArgsRule child instruction])
               else jsonArgsLoop unicode hasShellInstruction children rules))"

definition checkJSONArgsRecommended :: "Unicode \<Rightarrow> Node list \<Rightarrow> Rule list" where
  "checkJSONArgsRecommended unicode children =
     (if length children = 0 then []
      else jsonArgsLoop unicode (hasShell unicode children) children [])"

text \<open>For stating the property: what the second loop appends for one instruction.\<close>

definition jsonArgsFor :: "Unicode \<Rightarrow> bool \<Rightarrow> Node \<Rightarrow> Rule list" where
  "jsonArgsFor unicode hasShellInstruction child =
     (if (ToUpper unicode (Value child) = ''CMD'' \<or> ToUpper unicode (Value child) = ''ENTRYPOINT'')
         \<and> trimmedOriginal child \<noteq> []
         \<and> \<not> HasPrefix (trimmedOriginal child) ''[''
         \<and> \<not> hasShellInstruction
      then [jsonArgsRule child (ToUpper unicode (Value child))] else [])"

section \<open>The ARG validator\<close>

definition isIdentStart :: "char \<Rightarrow> bool" where
  "isIdentStart c \<longleftrightarrow> c \<in> set lower_letters \<or> c \<in> set upper_letters \<or> c = CHR ''_''"

definition isIdentChar :: "char \<Rightarrow> bool" where
  "isIdentChar c \<longleftrightarrow> isIdentStart c \<or> c \<in> set digit_chars"

text \<open>\<open>isValidARGName\<close>: the name is not empty and matches the regular expression
  \<open>^[a-zA-Z_][a-zA-Z0-9_]*$\<close>.\<close>

definition isValidARGName :: "string \<Rightarrow> bool" where
  "isValidARGName name =
     (case name of [] \<Rightarrow> False | c # cs \<Rightarrow> isIdentStart c \<and> list_all isIdentChar cs)"

text \<open>\<open>strings.SplitN(s, "=", 2)\<close>: at most two parts, cut at the first separator.\<close>

definition SplitN2 :: "string \<Rightarrow> char \<Rightarrow> string list" where
  "SplitN2 s sep =
     (if sep \<in> set s then [takeWhile (\<lambda>c. c \<noteq> sep) s, tl (dropWhile (\<lambda>c. c \<noteq> sep) s)]
      else [s])"

definition argValues :: "Node \<Rightarrow> string list" where
  "argValues node = map ArgValue (Next node)"

definition extractARGConfig :: "Node \<Rightarrow> string" where
  "extractARGConfig node = (if Next node = [] then [] else Join (argValues node) '' '')"

fun anyPartWithoutEquals :: "string list \<Rightarrow> bool" where
  "anyPartWithoutEquals [] = False"
| "anyPartWithoutEquals (part # parts) =
     (if \<not> Contains part ''='' then True else anyPartWithoutEquals parts)"

definition checkARGLegacySyntax :: "string \<Rightarrow> bool" where
  "checkARGLegacySyntax config =
     (let config' = TrimSpace config
      in if config' = [] then False
         else
           (let parts = Fields config'
            in if length parts \<le> 1 then False else anyPartWithoutEquals parts))"

fun allPartsWellFormed :: "string list \<Rightarrow> bool" where
  "allPartsWellFormed [] = True"
| "allPartsWellFormed (part # parts) =
     (if Contains part ''=''
      then
        (let nameValue = SplitN2 part (CHR ''='')
         in if length nameValue \<noteq> 2 then False
            else if \<not> isValidARGName (hd nameValue) then False
            else allPartsWellFormed parts)
      else if \<not> isValidARGName part then False
      else allPartsWellFormed parts)"

definition checkARGFormat :: "string \<Rightarrow> bool" where
  "checkARGFormat config =
     (let config' = TrimSpace config
      in if config' = [] then False else allPartsWellFormed (Fields config'))"

definition argMissingNameRule :: "Node \<Rightarrow> Rule" where
  "argMissingNameRule node =
     NewErrorRule node ''ArgMissingName''
       ''ARG instruction must specify at least one argument name''
       ''https://docs.docker.com/reference/dockerfile/#arg''"

definition argInvalidFormatRule :: "Node \<Rightarrow> Rule" where
  "argInvalidFormatRule node =
     NewErrorRule node ''ArgInvalidFormat''
       ''ARG instruction must be in the format <name>[=<default value>]''
       ''https://docs.docker.com/reference/dockerfile/#arg''"

definition argLegacyRule :: "Node \<Rightarrow> Rule" where
  "argLegacyRule node =
     NewWarningRule node ''LegacyKeyValueFormat''
       ''Legacy key/value format with whitespace separator should not be used. Use ARG key=value format instead''
       ''https://docs.docker.com/reference/build-checks/legacy-key-value-format/''"

definition parseARG :: "Node \<Rightarrow> Rule list" where
  "parseARG node =
     (if Next node = []
      then [invalidInstructionRule node ''ARG requires at least one argument'']
      else
        (let argConfig = extractARGConfig node
         in if TrimSpace argConfig = [] then [argMissingNameRule node]
            else if \<not> checkARGLegacySyntax argConfig \<and> \<not> checkARGFormat argConfig
              then [argInvalidFormatRule node]
            else (if checkARGLegacySyntax argConfig then [] @ [argLegacyRule node] else [])))"

section \<open>The EXPOSE validator\<close>

text \<open>
  \<open>strconv.Atoi\<close> belongs to Go's library. It accepts an optional sign followed by one or
  more decimal digits and fails on anything else; it also fails when the value does not
  fit the 64-bit \<open>int\<close>.
\<close>

definition digitValue :: "char \<Rightarrow> int" where
  "digitValue c = int (length (takeWhile (\<lambda>d. d \<noteq> c) digit_chars))"

fun parseDigits :: "int \<Rightarrow> string \<Rightarrow> int" where
  "parseDigits acc [] = acc"
| "parseDigits acc (c # cs) = parseDigits (acc * 10 + digitValue c) cs"

definition Atoi :: "string \<Rightarrow> int option" where
  "Atoi s =
     (let neg = (s \<noteq> [] \<and> hd s = CHR ''-'');
          ds = (if s \<noteq> [] \<and> (hd s = CHR ''-'' \<or> hd s = CHR ''+'') then tl s else s)
      in if ds = [] \<or> \<not> list_all (\<lambda>c. c \<in> set digit_chars) ds then None
         else
           (let n = parseDigits 0 ds;
                v = (if neg then - n else n)
            in if v < - (2 ^ 63) \<or> 2 ^ 63 - 1 < v then None else Some v))"

definition checkExposeFormat :: "string \<Rightarrow> bool" where
  "checkExposeFormat portSpec =
     (let colonCount = count_list portSpec (CHR '':'')
      in if colonCount > 0 then False else True)"

definition checkExposePortRange :: "string \<Rightarrow> bool" where
  "checkExposePortRange portSpec =
     (let portStr = (if Contains portSpec ''/'' then hd (Split portSpec (CHR ''/'')) else portSpec)
      in case Atoi portStr of
           None \<Rightarrow> True
         | Some port \<Rightarrow> port \<ge> 0 \<and> port \<le> 65535)"

definition checkExposeValidProtocol :: "Unicode \<Rightarrow> string \<Rightarrow> bool" where
  "checkExposeValidProtocol unicode portSpec =
     (if \<not> Contains portSpec ''/'' then True
      else
        (let parts = Split portSpec (CHR ''/'')
         in if length parts \<noteq> 2 then True
            else
              (let protocol = ToLower unicode (parts ! 1)
               in protocol = ''tcp'' \<or> protocol = ''udp'')))"

definition checkExposeProtoCasing :: "Unicode \<Rightarrow> string \<Rightarrow> bool" where
  "checkExposeProtoCasing unicode portSpec =
     (if \<not> Contains portSpec ''/'' then True
      else
        (let parts = Split portSpec (CHR ''/'')
         in if length parts \<noteq> 2 then True
            else
              (let protocol = parts ! 1
               in protocol = ToLower unicode protocol)))"

definition exposeInvalidFormatRule :: "Node \<Rightarrow> string \<Rightarrow> Rule" where
  "exposeInvalidFormatRule node v =
     NewErrorRule node ''ExposeInvalidFormat''
       (''EXPOSE instruction should not define an IP address or host-port mapping, found ''
          @ [CHR 0x27] @ v @ [CHR 0x27])
       ''https://docs.docker.com/reference/build-checks/expose-invalid-format/''"

definition exposePortOutOfRangeRule :: "Node \<Rightarrow> string \<Rightarrow> Rule" where
  "exposePortOutOfRangeRule node v =
     NewErrorRule node ''ExposePortOutOfRange''
       (''Port number in EXPOSE instruction is outside valid UNIX port range (0-65535): ''
          @ [CHR 0x27] @ v @ [CHR 0x27])
       ''https://en.wikipedia.org/wiki/List_of_TCP_and_UDP_port_numbers''"

definition exposeInvalidProtocolRule :: "Node \<Rightarrow> string \<Rightarrow> Rule" where
  "exposeInvalidProtocolRule node v =
     NewErrorRule node ''ExposeInvalidProtocol''
       (''Invalid protocol in EXPOSE instruction '' @ [CHR 0x27] @ v @ [CHR 0x27]
          @ '', only '' @ [CHR 0x27] @ ''tcp'' @ [CHR 0x27] @ '' and '' @ [CHR 0x27] @ ''udp''
          @ [CHR 0x27] @ '' are supported'')
       ''https://docs.docker.com/reference/dockerfile/#expose''"

definition exposeProtoCasingRule :: "Node \<Rightarrow> string \<Rightarrow> Rule" where
  "exposeProtoCasingRule node v =
     NewWarningRule node ''ExposeProtoCasing''
       (''Defined protocol '' @ [CHR 0x27] @ v @ [CHR 0x27]
          @ '' in EXPOSE instruction should be lowercase'')
       ''https://docs.docker.com/reference/build-checks/expose-proto-casing/''"

text \<open>The first loop of \<open>parseEXPOSE\<close> returns at the first argument that fails a check
  (\<open>Some\<close> of the one rule); \<open>None\<close> means that it ran to the end.\<close>

fun exposeFirstError :: "Unicode \<Rightarrow> Node \<Rightarrow> ArgNode list \<Rightarrow> Rule option" where
  "exposeFirstError unicode node [] = None"
| "exposeFirstError unicode node (current # rest) =
     (if \<not> checkExposeFormat (ArgValue current)
        then Some (exposeInvalidFormatRule node (ArgValue current))
      else if \<not> checkExposePortRange (ArgValue current)
        then Some (exposePortOutOfRangeRule node (ArgValue current))
      else if \<not> checkExposeValidProtocol unicode (ArgValue current)
        then Some (exposeInvalidProtocolRule node (ArgValue current))
      else exposeFirstError unicode node rest)"

fun exposeWarnings :: "Unicode \<Rightarrow> Node \<Rightarrow> ArgNode list \<Rightarrow> Rule list \<Rightarrow> Rule list" where
  "exposeWarnings unicode node [] exposeRules = exposeRules"
| "exposeWarnings unicode node (current # rest) exposeRules =
     (if \<not> checkExposeProtoCasing unicode (ArgValue current)
      then exposeWarnings unicode node rest (exposeRules @ [exposeProtoCasingRule node (ArgValue current)])
      else exposeWarnings unicode node rest exposeRules)"

definition parseEXPOSE :: "Unicode \<Rightarrow> Node \<Rightarrow> Rule list" where
  "parseEXPOSE unicode node =
     (if Next node = []
      then [invalidInstructionRule node ''EXPOSE requires at least one argument'']
      else
        (case exposeFirstError unicode node (Next node) of
           Some rule \<Rightarrow> [rule]
         | None \<Rightarrow> exposeWarnings unicode node (Next node) []))"

text \<open>
  For stating the properties of \<open>parseEXPOSE\<close>: the part of an argument before its first
  slash, the part after it, and what it takes for an argument to pass the three checks
  of the first loop.
\<close>

definition portPrefix :: "string \<Rightarrow> string" where
  "portPrefix v = takeWhile (\<lambda>c. c \<noteq> CHR ''/'') v"

definition protocolPart :: "string \<Rightarrow> string" where
  "protocolPart v = tl (dropWhile (\<lambda>c. c \<noteq> CHR ''/'') v)"

definition portInRange :: "string \<Rightarrow> bool" where
  "portInRange v = (case Atoi (portPrefix v) of None \<Rightarrow> True | Some port \<Rightarrow> 0 \<le> port \<and> port \<le> 65535)"

definition exposeAccepted :: "Unicode \<Rightarrow> string \<Rightarrow> bool" where
  "exposeAccepted unicode v \<longleftrightarrow>
     CHR '':'' \<notin> set v \<and> portInRange v
     \<and> (if count_list v (CHR ''/'') = 1 then ToLower unicode (protocolPart v) \<in> {''tcp'', ''udp''}
        else True)"

section \<open>Variable references\<close>

text \<open>
  \<open>extractVariableReferences\<close> collects the matches of two regular expressions with
  \<open>FindAllStringSubmatch\<close>, which scans from the left and resumes after each match:
  first \<open>\$\{([a-zA-Z_][a-zA-Z0-9_]*)\}\<close>, then \<open>\$([a-zA-Z_][a-zA-Z0-9_]*)\<close>. The
  name class excludes the closing brace, so the longest run of name characters is the
  only candidate at a position. A name already seen is not listed twice.
\<close>

definition matchBraceRef :: "string \<Rightarrow> (string \<times> string) option" where
  "matchBraceRef s =
     (case s of
        c1 # c2 # t \<Rightarrow>
          (if c1 = CHR ''$'' \<and> c2 = CHR ''{''
           then
             (let name = takeWhile isIdentChar t;
                  rest = dropWhile isIdentChar t
              in if name \<noteq> [] \<and> isIdentStart (hd name) \<and> rest \<noteq> [] \<and> hd rest = CHR ''}''
                 then Some (name, tl rest) else None)
           else None)
      | _ \<Rightarrow> None)"

definition matchDollarRef :: "string \<Rightarrow> (string \<times> string) option" where
  "matchDollarRef s =
     (case s of
        c1 # t \<Rightarrow>
          (if c1 = CHR ''$''
           then
             (let name = takeWhile isIdentChar t;
                  rest = dropWhile isIdentChar t
              in if name \<noteq> [] \<and> isIdentStart (hd name) then Some (name, rest) else None)
           else None)
      | _ \<Rightarrow> None)"

lemma matchBraceRef_shorter: "matchBraceRef s = Some (name, rest) \<Longrightarrow> length rest < length s"
proof -
  assume a: "matchBraceRef s = Some (name, rest)"
  then obtain c1 c2 t where s: "s = c1 # c2 # t"
    by (cases s; cases "tl s") (auto simp: matchBraceRef_def)
  from a s have "rest = tl (dropWhile isIdentChar t)"
    by (auto simp: matchBraceRef_def Let_def split: if_splits)
  moreover have "length (tl (dropWhile isIdentChar t)) \<le> length t"
    using length_dropWhile_le [of isIdentChar t] by simp
  ultimately show ?thesis using s by simp
qed

lemma matchDollarRef_shorter: "matchDollarRef s = Some (name, rest) \<Longrightarrow> length rest < length s"
proof -
  assume a: "matchDollarRef s = Some (name, rest)"
  then obtain c1 t where s: "s = c1 # t"
    by (cases s) (auto simp: matchDollarRef_def)
  from a s have "rest = dropWhile isIdentChar t"
    by (auto simp: matchDollarRef_def Let_def split: if_splits)
  then show ?thesis using s length_dropWhile_le [of isIdentChar t] by simp
qed

function findBraceRefs :: "string \<Rightarrow> string list" where
  "findBraceRefs [] = []"
| "findBraceRefs (c # cs) =
     (case matchBraceRef (c # cs) of
        Some (name, rest) \<Rightarrow> name # findBraceRefs rest
      | None \<Rightarrow> findBraceRefs cs)"
  by pat_completeness auto
termination
  by (relation "measure length") (auto dest: matchBraceRef_shorter)

function findDollarRefs :: "string \<Rightarrow> string list" where
  "findDollarRefs [] = []"
| "findDollarRefs (c # cs) =
     (case matchDollarRef (c # cs) of
        Some (name, rest) \<Rightarrow> name # findDollarRefs rest
      | None \<Rightarrow> findDollarRefs cs)"
  by pat_completeness auto
termination
  by (relation "measure length") (auto dest: matchDollarRef_shorter)

fun addUnseen :: "string list \<Rightarrow> string list \<Rightarrow> string list" where
  "addUnseen refs [] = refs"
| "addUnseen refs (name # names) =
     (if name \<in> set refs then addUnseen refs names else addUnseen (refs @ [name]) names)"

definition extractVariableReferences :: "string \<Rightarrow> string list" where
  "extractVariableReferences text' =
     addUnseen (addUnseen [] (findBraceRefs text')) (findDollarRefs text')"

text \<open>\<open>extractArgNames\<close>: of each argument the part before the first \<open>=\<close>, or all of it.\<close>

definition extractArgNames :: "Node \<Rightarrow> string list" where
  "extractArgNames node =
     map (\<lambda>current. takeWhile (\<lambda>c. c \<noteq> CHR ''='') (ArgValue current)) (Next node)"

text \<open>\<open>extractEnvNames\<close>: \<open>KEY=value\<close> gives \<open>KEY\<close>; a bare \<open>KEY\<close> takes the next
  argument as its value and skips it.\<close>

fun envNames :: "ArgNode list \<Rightarrow> string list" where
  "envNames [] = []"
| "envNames [current] =
     (if Contains (ArgValue current) ''='' then [hd (SplitN2 (ArgValue current) (CHR ''=''))]
      else [ArgValue current])"
| "envNames (current # nxt # rest) =
     (if Contains (ArgValue current) ''=''
      then hd (SplitN2 (ArgValue current) (CHR ''='')) # envNames (nxt # rest)
      else ArgValue current # envNames rest)"

definition extractEnvNames :: "Node \<Rightarrow> string list" where
  "extractEnvNames node = envNames (Next node)"

section \<open>The undefined-variable pass\<close>

definition predefinedArgs :: "string set" where
  "predefinedArgs = set [''TARGETPLATFORM'', ''TARGETOS'', ''TARGETARCH'', ''TARGETVARIANT'',
     ''BUILDPLATFORM'', ''BUILDOS'', ''BUILDARCH'', ''BUILDVARIANT'',
     ''HTTP_PROXY'', ''http_proxy'', ''HTTPS_PROXY'', ''https_proxy'', ''FTP_PROXY'',
     ''ftp_proxy'', ''NO_PROXY'', ''no_proxy'', ''ALL_PROXY'', ''all_proxy'']"

fun collectGlobalArgs :: "Unicode \<Rightarrow> Node list \<Rightarrow> string set \<Rightarrow> string set" where
  "collectGlobalArgs unicode [] globalArgs = globalArgs"
| "collectGlobalArgs unicode (child # children) globalArgs =
     (if ToUpper unicode (Value child) = ''FROM'' then globalArgs
      else if ToUpper unicode (Value child) = ''ARG''
        then collectGlobalArgs unicode children (globalArgs \<union> set (extractArgNames child))
      else collectGlobalArgs unicode children globalArgs)"

text \<open>
  The pass builds its rule in eight places. Three of the literals set
  \<open>Severity: SeverityError\<close>; the other five leave the field out, so that it keeps the
  zero value of a Go string, the empty string.
\<close>

definition undefinedVarRule :: "Node \<Rightarrow> string \<Rightarrow> Rule" where
  "undefinedVarRule child varName =
     \<lparr>StartLine = NodeStartLine child, EndLine = NodeEndLine child, Code = ''UndefinedVar'',
      Description = ''Usage of undefined variable '' @ [CHR 0x27] @ ''$'' @ varName @ [CHR 0x27],
      Url = ''https://docs.docker.com/reference/build-checks/undefined-var/'',
      Severity = SeverityError\<rparr>"

definition undefinedVarRuleNoSeverity :: "Node \<Rightarrow> string \<Rightarrow> Rule" where
  "undefinedVarRuleNoSeverity child varName =
     \<lparr>StartLine = NodeStartLine child, EndLine = NodeEndLine child, Code = ''UndefinedVar'',
      Description = ''Usage of undefined variable '' @ [CHR 0x27] @ ''$'' @ varName @ [CHR 0x27],
      Url = ''https://docs.docker.com/reference/build-checks/undefined-var/'',
      Severity = []\<rparr>"

text \<open>The inner loop over the references of one text: a rule for each name that is
  neither in the stage's scope nor predefined.\<close>

fun reportUndefined ::
  "(string \<Rightarrow> Rule) \<Rightarrow> string set \<Rightarrow> string list \<Rightarrow> Rule list \<Rightarrow> Rule list" where
  "reportUndefined mk stageVars [] rules = rules"
| "reportUndefined mk stageVars (varName # varRefs) rules =
     (if varName \<notin> stageVars \<and> varName \<notin> predefinedArgs
      then reportUndefined mk stageVars varRefs (rules @ [mk varName])
      else reportUndefined mk stageVars varRefs rules)"

fun checkEnvValues :: "Node \<Rightarrow> string set \<Rightarrow> ArgNode list \<Rightarrow> Rule list \<Rightarrow> Rule list" where
  "checkEnvValues child stageVars [] rules = rules"
| "checkEnvValues child stageVars [current] rules =
     (let valueToCheck =
            (if Contains (ArgValue current) ''='' then SplitN2 (ArgValue current) (CHR ''='') ! 1
             else [])
      in if valueToCheck \<noteq> []
         then reportUndefined (undefinedVarRuleNoSeverity child) stageVars
                (extractVariableReferences valueToCheck) rules
         else rules)"
| "checkEnvValues child stageVars (current # nxt # rest) rules =
     (if Contains (ArgValue current) ''=''
      then
        (let valueToCheck = SplitN2 (ArgValue current) (CHR ''='') ! 1
         in checkEnvValues child stageVars (nxt # rest)
              (if valueToCheck \<noteq> []
               then reportUndefined (undefinedVarRuleNoSeverity child) stageVars
                      (extractVariableReferences valueToCheck) rules
               else rules))
      else
        (let valueToCheck = ArgValue nxt
         in checkEnvValues child stageVars rest
              (if valueToCheck \<noteq> []
               then reportUndefined (undefinedVarRuleNoSeverity child) stageVars
                      (extractVariableReferences valueToCheck) rules
               else rules)))"

fun checkExecTokens :: "Node \<Rightarrow> string set \<Rightarrow> ArgNode list \<Rightarrow> Rule list \<Rightarrow> Rule list" where
  "checkExecTokens child stageVars [] rules = rules"
| "checkExecTokens child stageVars (current # rest) rules =
     checkExecTokens child stageVars rest
       (reportUndefined (undefinedVarRuleNoSeverity child) stageVars
          (extractVariableReferences (ArgValue current)) rules)"

fun checkFlagList :: "(string \<Rightarrow> Rule) \<Rightarrow> string set \<Rightarrow> string list \<Rightarrow> Rule list \<Rightarrow> Rule list" where
  "checkFlagList mk stageVars [] rules = rules"
| "checkFlagList mk stageVars (flag # flags) rules =
     checkFlagList mk stageVars flags
       (reportUndefined mk stageVars (extractVariableReferences flag) rules)"

fun checkOtherArgs :: "Node \<Rightarrow> string set \<Rightarrow> ArgNode list \<Rightarrow> Rule list \<Rightarrow> Rule list" where
  "checkOtherArgs child stageVars [] rules = rules"
| "checkOtherArgs child stageVars (current # rest) rules =
     checkOtherArgs child stageVars rest
       (checkFlagList (undefinedVarRuleNoSeverity child) stageVars (ArgFlags current)
          (reportUndefined (undefinedVarRule child) stageVars
             (extractVariableReferences (ArgValue current)) rules))"

record varState =
  curInStage :: bool
  curStageVars :: "string set"
  curRules :: "Rule list"

text \<open>One round of the main loop of \<open>checkUndefinedVar\<close>, for one instruction.\<close>

definition undefinedVarStep :: "Unicode \<Rightarrow> string set \<Rightarrow> varState \<Rightarrow> Node \<Rightarrow> varState" where
  "undefinedVarStep unicode globalArgs st child =
     (let instruction = ToUpper unicode (Value child)
      in if instruction = ''FROM'' then
           (let vars = globalArgs \<union> predefinedArgs;
                imageRef = fromImageRef unicode child;
                platformFlag = fromPlatformFlag unicode child;
                rules1 = reportUndefined (undefinedVarRule child) vars
                           (extractVariableReferences imageRef) (curRules st);
                rules2 = (if platformFlag \<noteq> []
                          then reportUndefined (undefinedVarRuleNoSeverity child) vars
                                 (extractVariableReferences platformFlag) rules1
                          else rules1)
            in \<lparr>curInStage = True, curStageVars = vars, curRules = rules2\<rparr>)
         else if \<not> curInStage st then st
         else if instruction = ''ARG'' then
           (let vars = curStageVars st \<union> set (extractArgNames child)
            in case Next child of
                 [] \<Rightarrow> st\<lparr>curStageVars := vars\<rparr>
               | first # _ \<Rightarrow>
                   (let argValue = ArgValue first
                    in if Contains argValue ''=''
                       then
                         (let parts = SplitN2 argValue (CHR ''='')
                          in if length parts = 2
                             then st\<lparr>curStageVars := vars,
                                     curRules := reportUndefined (undefinedVarRuleNoSeverity child) vars
                                                (extractVariableReferences (parts ! 1)) (curRules st)\<rparr>
                             else st\<lparr>curStageVars := vars\<rparr>)
                       else st\<lparr>curStageVars := vars\<rparr>))
         else if instruction = ''ENV'' then
           (let vars = curStageVars st \<union> set (extractEnvNames child)
            in st\<lparr>curStageVars := vars,
                  curRules := checkEnvValues child vars (Next child) (curRules st)\<rparr>)
         else if instruction = ''RUN'' \<or> instruction = ''CMD'' \<or> instruction = ''ENTRYPOINT'' then
           (if length (Attributes child) > 0 \<and> ''json'' \<in> set (Attributes child)
            then st\<lparr>curRules := checkExecTokens child (curStageVars st) (Next child) (curRules st)\<rparr>
            else st)
         else
           st\<lparr>curRules :=
                checkFlagList (undefinedVarRule child) (curStageVars st) (Flags child)
                  (checkOtherArgs child (curStageVars st) (Next child) (curRules st))\<rparr>)"

fun undefinedVarLoop :: "Unicode \<Rightarrow> string set \<Rightarrow> Node list \<Rightarrow> varState \<Rightarrow> varState" where
  "undefinedVarLoop unicode globalArgs [] st = st"
| "undefinedVarLoop unicode globalArgs (child # children) st =
     undefinedVarLoop unicode globalArgs children (undefinedVarStep unicode globalArgs st child)"

definition checkUndefinedVar :: "Unicode \<Rightarrow> Node list \<Rightarrow> Rule list" where
  "checkUndefinedVar unicode children =
     (if length children = 0 then []
      else
        (let globalArgs = collectGlobalArgs unicode children {}
         in curRules (undefinedVarLoop unicode globalArgs children
                     \<lparr>curInStage = False, curStageVars = {}, curRules = []\<rparr>)))"

text \<open>For stating what every rule of the pass has: the code \<open>UndefinedVar\<close>, and a
  severity that is \<open>error\<close> or empty, depending on the place that built it.\<close>

definition undefinedVarShape :: "Rule \<Rightarrow> bool" where
  "undefinedVarShape r \<longleftrightarrow>
     Code r = ''UndefinedVar'' \<and> (Severity r = SeverityError \<or> Severity r = [])"

section \<open>Undefined ARG in FROM\<close>

definition undefinedArgInFromRule :: "Node \<Rightarrow> string \<Rightarrow> Rule" where
  "undefinedArgInFromRule child varRef =
     \<lparr>StartLine = NodeStartLine child, EndLine = NodeEndLine child,
      Code = ''UndefinedArgInFrom'',
      Description = ''FROM argument '' @ [CHR 0x27] @ varRef @ [CHR 0x27] @ '' is not declared'',
      Url = ''https://docs.docker.com/reference/build-checks/undefined-arg-in-from/'',
      Severity = SeverityError\<rparr>"

fun reportUndeclared :: "Node \<Rightarrow> string set \<Rightarrow> string list \<Rightarrow> Rule list \<Rightarrow> Rule list" where
  "reportUndeclared child globalArgs [] rules = rules"
| "reportUndeclared child globalArgs (varRef # varRefs) rules =
     (if varRef \<notin> globalArgs \<and> varRef \<notin> predefinedArgs
      then reportUndeclared child globalArgs varRefs (rules @ [undefinedArgInFromRule child varRef])
      else reportUndeclared child globalArgs varRefs rules)"

fun undefinedArgLoop :: "Unicode \<Rightarrow> string set \<Rightarrow> Node list \<Rightarrow> Rule list \<Rightarrow> Rule list" where
  "undefinedArgLoop unicode globalArgs [] rules = rules"
| "undefinedArgLoop unicode globalArgs (child # children) rules =
     (if ToUpper unicode (Value child) = ''FROM''
      then undefinedArgLoop unicode globalArgs children
             (reportUndeclared child globalArgs
                (extractVariableReferences (fromImageRef unicode child)) rules)
      else undefinedArgLoop unicode globalArgs children rules)"

definition checkUndefinedArgInFrom :: "Unicode \<Rightarrow> Node list \<Rightarrow> Rule list" where
  "checkUndefinedArgInFrom unicode children =
     (if length children = 0 then []
      else undefinedArgLoop unicode (collectGlobalArgs unicode children {}) children [])"

section \<open>The facade\<close>

text \<open>
  \<open>ParseDockerfile\<close> hands the text to BuildKit's parser, which is outside this
  repository: it either fails with a message or returns the instruction nodes and its
  warnings. A warning has a short text, a URL and an optional location (start and end
  line).
\<close>

record Warning =
  Short :: string
  URL :: string
  Location :: "(int \<times> int) option"

record ParserResult =
  AST :: "Node list"
  Warnings :: "Warning list"

record Result =
  Rules :: "Rule list"
  Score :: int

text \<open>
  What \<open>ParseDockerfile\<close> calls and no property below looks into is taken as a
  parameter: the parser, the order in which Go ranges over the map of stage names, and
  the passes and validators whose rules are only passed through. The properties hold
  whatever these return. The case maps of Go's \<open>unicode\<close> package come in as the
  parameter \<open>unicode\<close>, as everywhere.
\<close>

record Collaborators =
  parserParse :: "string \<Rightarrow> string + ParserResult"
  stageKeyOrder :: "Node list \<Rightarrow> string list"
  checkConsistentInstructionCasing :: "Node list \<Rightarrow> Rule list"
  checkMultipleInstructionsDisallowed :: "Node list \<Rightarrow> Rule list"
  checkSecretsInArgOrEnv :: "Node list \<Rightarrow> Rule list"
  checkInvalidDefaultArgInFrom :: "Node list \<Rightarrow> Rule list"
  parseFROM :: "Node \<Rightarrow> Rule list"
  parseWorkdir :: "Node \<Rightarrow> Rule list"
  parseRun :: "Node \<Rightarrow> Rule list"
  parseCMD :: "Node \<Rightarrow> Rule list"
  parseENTRYPOINT :: "Node \<Rightarrow> Rule list"
  parseSHELL :: "Node \<Rightarrow> Rule list"
  parseVOLUME :: "Node \<Rightarrow> Rule list"
  parseUSER :: "Node \<Rightarrow> Rule list"
  parseLABEL :: "Node \<Rightarrow> Rule list"
  parseENV :: "Node \<Rightarrow> Rule list"
  parseCOPY :: "Node \<Rightarrow> Rule list"
  parseADD :: "Node \<Rightarrow> Rule list"
  parseHEALTHCHECK :: "Node \<Rightarrow> Rule list"
  parseONBUILD :: "Node \<Rightarrow> Rule list"
  parseSTOPSIGNAL :: "Node \<Rightarrow> Rule list"
  parseMAINTAINER :: "Node \<Rightarrow> Rule list"

fun warningRules :: "Warning list \<Rightarrow> Rule list \<Rightarrow> Rule list" where
  "warningRules [] parseRules = parseRules"
| "warningRules (warning # warnings) parseRules =
     (if Contains (URL warning) ''no-empty-continuation'' then warningRules warnings parseRules
      else
        (let startLine' = (case Location warning of None \<Rightarrow> 0 | Some (s, e) \<Rightarrow> s);
             endLine' = (case Location warning of None \<Rightarrow> 0 | Some (s, e) \<Rightarrow> e)
         in warningRules warnings
              (parseRules @
                 [\<lparr>StartLine = startLine', EndLine = endLine', Code = ''ParserWarning'',
                   Description = Short warning, Url = URL warning,
                   Severity = SeverityWarning\<rparr>])))"

definition appendRules :: "Rule list \<Rightarrow> Rule list \<Rightarrow> Rule list" where
  "appendRules parseRules newRules =
     (if length newRules \<noteq> 0 then parseRules @ newRules else parseRules)"

definition unrecognizedInstructionRule :: "Node \<Rightarrow> Rule" where
  "unrecognizedInstructionRule child =
     NewFatalRule child ''UnrecognizedInstruction''
       ([CHR 0x27] @ Value child @ [CHR 0x27] @ '' is not a recognized Dockerfile instruction'')
       ''https://docs.docker.com/reference/dockerfile/''"

text \<open>The \<open>switch\<close> of the dispatch loop, case by case in the order of the source.\<close>

definition dispatchInstruction :: "Unicode \<Rightarrow> Collaborators \<Rightarrow> Node \<Rightarrow> Rule list" where
  "dispatchInstruction unicode env child =
     (let instruction = Value child;
          insUppercase = ToUpper unicode instruction
      in if insUppercase = ''FROM'' then parseFROM env child
         else if insUppercase = ''WORKDIR'' then parseWorkdir env child
         else if insUppercase = ''RUN'' then parseRun env child
         else if insUppercase = ''EXPOSE'' then parseEXPOSE unicode child
         else if insUppercase = ''CMD'' then parseCMD env child
         else if insUppercase = ''ENTRYPOINT'' then parseENTRYPOINT env child
         else if insUppercase = ''SHELL'' then parseSHELL env child
         else if insUppercase = ''VOLUME'' then parseVOLUME env child
         else if insUppercase = ''USER'' then parseUSER env child
         else if insUppercase = ''LABEL'' then parseLABEL env child
         else if insUppercase = ''ENV'' then parseENV env child
         else if insUppercase = ''ARG'' then parseARG child
         else if insUppercase = ''COPY'' then parseCOPY env child
         else if insUppercase = ''ADD'' then parseADD env child
         else if insUppercase = ''HEALTHCHECK'' then parseHEALTHCHECK env child
         else if insUppercase = ''ONBUILD'' then parseONBUILD env child
         else if insUppercase = ''STOPSIGNAL'' then parseSTOPSIGNAL env child
         else if insUppercase = ''MAINTAINER'' then parseMAINTAINER env child
         else [unrecognizedInstructionRule child])"

fun dispatchLoop :: "Unicode \<Rightarrow> Collaborators \<Rightarrow> Node list \<Rightarrow> Rule list \<Rightarrow> Rule list" where
  "dispatchLoop unicode env [] parseRules = parseRules"
| "dispatchLoop unicode env (child # children) parseRules =
     dispatchLoop unicode env children (appendRules parseRules (dispatchInstruction unicode env child))"

text \<open>The rules of the cross-instruction passes, in the order in which the facade runs
  them, after the parser's warnings.\<close>

definition passRules :: "Unicode \<Rightarrow> Collaborators \<Rightarrow> string \<Rightarrow> ParserResult \<Rightarrow> Rule list" where
  "passRules unicode env dockerfileContent result =
     (let parseRules = warningRules (Warnings result) [];
          parseRules = appendRules parseRules (checkEmptyContinuations dockerfileContent);
          parseRules = appendRules parseRules (checkConsistentInstructionCasing env (AST result));
          parseRules = appendRules parseRules
                         (checkDuplicateStageNames unicode (stageKeyOrder env (AST result)) (AST result));
          parseRules = appendRules parseRules (checkPlatformFlagConstDisallowed unicode (AST result));
          parseRules = appendRules parseRules (checkJSONArgsRecommended unicode (AST result));
          parseRules = appendRules parseRules (checkUndefinedArgInFrom unicode (AST result));
          parseRules = appendRules parseRules (checkUndefinedVar unicode (AST result));
          parseRules = appendRules parseRules (checkMultipleInstructionsDisallowed env (AST result));
          parseRules = appendRules parseRules (checkSecretsInArgOrEnv env (AST result));
          parseRules = appendRules parseRules (checkInvalidDefaultArgInFrom env (AST result))
      in parseRules)"

definition ParseDockerfile :: "Unicode \<Rightarrow> Collaborators \<Rightarrow> string \<Rightarrow> string + Result" where
  "ParseDockerfile unicode env dockerfileContent =
     (case parserParse env dockerfileContent of
        Inl err \<Rightarrow> Inl (''failed to parse dockerfile: '' @ err)
      | Inr result \<Rightarrow>
          (let parseRules = dispatchLoop unicode env (AST result) (passRules unicode env dockerfileContent result);
               score = calculateScore parseRules
           in Inr \<lparr>Rules = parseRules, Score = score\<rparr>))"

text \<open>The keywords that have a case of their own in the dispatch.\<close>

definition recognizedInstructions :: "string list" where
  "recognizedInstructions =
     [''FROM'', ''WORKDIR'', ''RUN'', ''EXPOSE'', ''CMD'', ''ENTRYPOINT'', ''SHELL'', ''VOLUME'',
      ''USER'', ''LABEL'', ''ENV'', ''ARG'', ''COPY'', ''ADD'', ''HEALTHCHECK'', ''ONBUILD'',
      ''STOPSIGNAL'', ''MAINTAINER'']"

section \<open>Example inputs\<close>

text \<open>Concrete rules, nodes and Dockerfiles, used to run the definitions.\<close>

definition exampleRule :: "Severity \<Rightarrow> Rule" where
  "exampleRule sev =
     \<lparr>StartLine = 1, EndLine = 1, Code = ''UndefinedVar'', Description = [], Url = [],
      Severity = sev\<rparr>"

definition mkArg :: "string \<Rightarrow> ArgNode" where
  "mkArg v = \<lparr>ArgValue = v, ArgFlags = []\<rparr>"

definition mkNode :: "string \<Rightarrow> string list \<Rightarrow> string list \<Rightarrow> string \<Rightarrow> int \<Rightarrow> Node" where
  "mkNode keyword flags args original line =
     \<lparr>Value = keyword, Next = map mkArg args, Attributes = [], Original = original,
      Flags = flags, NodeStartLine = line, NodeEndLine = line\<rparr>"

definition newline :: string where
  "newline = [CHR 0x0A]"

text \<open>
  The examples are ASCII text, which \<open>strings.ToUpper\<close> and \<open>strings.ToLower\<close>
  convert without the case maps of the \<open>unicode\<close> package. Where a statement about
  an example has to name the two maps it names these, which leave a string as it is; no
  example reaches them.
\<close>

definition exampleUnicode :: Unicode where
  "exampleUnicode = \<lparr>mapToUpper = id, mapToLower = id\<rparr>"

text \<open>A Dockerfile with an instruction that does not exist, and its nodes. The parser
  gives an instruction it does not know one empty argument node.\<close>

definition downloadDockerfile :: string where
  "downloadDockerfile = ''FROM alpine'' @ newline @ ''DOWNLOAD http://example.com/file.tar.gz''"

definition downloadNode :: Node where
  "downloadNode = mkNode ''DOWNLOAD'' [] [[]] ''DOWNLOAD http://example.com/file.tar.gz'' 2"

definition downloadAST :: "Node list" where
  "downloadAST = [mkNode ''FROM'' [] [''alpine''] ''FROM alpine'' 1, downloadNode]"

text \<open>Collaborators for the examples: a parser that knows the example text, and passes
  and validators that find nothing to report (which is what the real ones do on it).\<close>

definition exampleParser :: "string \<Rightarrow> string + ParserResult" where
  "exampleParser dockerfileContent =
     (if dockerfileContent = downloadDockerfile then Inr \<lparr>AST = downloadAST, Warnings = []\<rparr>
      else Inl ''file with no instructions'')"

definition exampleCollaborators :: Collaborators where
  "exampleCollaborators =
     \<lparr>parserParse = exampleParser,
      stageKeyOrder = (\<lambda>children. []),
      checkConsistentInstructionCasing = (\<lambda>children. []),
      checkMultipleInstructionsDisallowed = (\<lambda>children. []),
      checkSecretsInArgOrEnv = (\<lambda>children. []),
      checkInvalidDefaultArgInFrom = (\<lambda>children. []),
      parseFROM = (\<lambda>node. []), parseWorkdir = (\<lambda>node. []), parseRun = (\<lambda>node. []),
      parseCMD = (\<lambda>node. []), parseENTRYPOINT = (\<lambda>node. []), parseSHELL = (\<lambda>node. []),
      parseVOLUME = (\<lambda>node. []), parseUSER = (\<lambda>node. []), parseLABEL = (\<lambda>node. []),
      parseENV = (\<lambda>node. []), parseCOPY = (\<lambda>node. []), parseADD = (\<lambda>node. []),
      parseHEALTHCHECK = (\<lambda>node. []), parseONBUILD = (\<lambda>node. []),
      parseSTOPSIGNAL = (\<lambda>node. []), parseMAINTAINER = (\<lambda>node. [])\<rparr>"

text \<open>A continuation followed by an empty line; the RUN instruction starts on line 2.\<close>

definition continuationDockerfile :: string where
  "continuationDockerfile =
     ''FROM alpine'' @ newline @ ''RUN apk add '' @ backslash @ newline @ newline @ ''    curl''"

text \<open>
  Nodes for a Dockerfile that uses undefined variables in five places:
  \<^verbatim>\<open>FROM --platform=$P alpine\<close>, \<^verbatim>\<open>ARG A=$B\<close>, \<^verbatim>\<open>ENV C=$D\<close> (which the parser
  delivers as name, value and separator), \<^verbatim>\<open>CMD ["$E"]\<close> (marked \<open>json\<close>) and
  \<^verbatim>\<open>WORKDIR $F\<close>.
\<close>

definition platformVarNode :: Node where
  "platformVarNode = mkNode ''FROM'' [''--platform=$P''] [''alpine''] ''FROM --platform=$P alpine'' 1"

definition argDefaultNode :: Node where
  "argDefaultNode = mkNode ''ARG'' [] [''A=$B''] ''ARG A=$B'' 2"

definition envValueNode :: Node where
  "envValueNode = mkNode ''ENV'' [] [''C'', ''$D'', ''=''] ''ENV C=$D'' 3"

definition execCmdNode :: Node where
  "execCmdNode =
     (mkNode ''CMD'' [] [''$E''] (''CMD ['' @ [CHR 0x22] @ ''$E'' @ [CHR 0x22] @ '']'') 4)
       \<lparr>Attributes := [''json'']\<rparr>"

definition workdirVarNode :: Node where
  "workdirVarNode = mkNode ''WORKDIR'' [] [''$F''] ''WORKDIR $F'' 5"

definition undefinedVarAST :: "Node list" where
  "undefinedVarAST =
     [platformVarNode, argDefaultNode, envValueNode, execCmdNode, workdirVarNode]"

text \<open>A shell-form CMD, a CMD without arguments, and a SHELL instruction.\<close>

definition fromAlpineNode :: Node where
  "fromAlpineNode = mkNode ''FROM'' [] [''alpine''] ''FROM alpine'' 1"

definition cmdEchoNode :: Node where
  "cmdEchoNode = mkNode ''CMD'' [] [''echo hi''] ''CMD echo hi'' 2"

definition bareCmdNode :: Node where
  "bareCmdNode = mkNode ''CMD'' [] [] ''CMD'' 2"

definition shellNode :: Node where
  "shellNode =
     (mkNode ''SHELL'' [] [''/bin/sh'', ''-c'']
        (''SHELL ['' @ [CHR 0x22] @ ''/bin/sh'' @ [CHR 0x22] @ '','' @ [CHR 0x22] @ ''-c''
           @ [CHR 0x22] @ '']'') 3)
       \<lparr>Attributes := [''json'']\<rparr>"

text \<open>Four stages with two names, declared alternately.\<close>

definition stageNode :: "string \<Rightarrow> int \<Rightarrow> Node" where
  "stageNode name line =
     mkNode ''FROM'' [] [''alpine'', ''AS'', name] (''FROM alpine AS '' @ name) line"

definition alternatingStages :: "Node list" where
  "alternatingStages = [stageNode ''a'' 1, stageNode ''b'' 2, stageNode ''a'' 3, stageNode ''b'' 4]"

definition buildStages :: "Node list" where
  "buildStages = [stageNode ''build'' 1, stageNode ''BUILD'' 2]"

text \<open>FROM instructions with a constant platform.\<close>

definition platformStageNode :: "string \<Rightarrow> string \<Rightarrow> int \<Rightarrow> Node" where
  "platformStageNode imageRef name line =
     mkNode ''FROM'' [''--platform=linux/amd64''] [imageRef, ''AS'', name]
       (''FROM --platform=linux/amd64 '' @ imageRef @ '' AS '' @ name) line"

definition fromNode :: "string \<Rightarrow> int \<Rightarrow> Node" where
  "fromNode imageRef line = mkNode ''FROM'' [] [imageRef] (''FROM '' @ imageRef) line"

definition exactReferenceStages :: "Node list" where
  "exactReferenceStages =
     [platformStageNode ''alpine'' ''build_amd64'' 1, stageNode ''build'' 2, fromNode ''build'' 3]"

definition referencedStage :: "Node list" where
  "referencedStage = [platformStageNode ''alpine'' ''builder'' 1, fromNode ''builder'' 2]"

definition unreferencedStage :: "Node list" where
  "unreferencedStage = [platformStageNode ''alpine'' ''builder'' 1]"

definition selfReferencedStage :: "Node list" where
  "selfReferencedStage = [platformStageNode ''alpine'' ''a'' 1]"

section \<open>Properties of the scorer\<close>

lemma severity_names_distinct:
  "SeverityFatal \<noteq> SeverityError" "SeverityFatal \<noteq> SeverityWarning"
  "SeverityError \<noteq> SeverityWarning"
  by (simp_all add: SeverityFatal_def SeverityError_def SeverityWarning_def)

lemma calculateScoreLoop_fatal:
  "hasFatal rules \<Longrightarrow> calculateScoreLoop rules e w = 0"
  by (induction rules arbitrary: e w) (auto simp: hasFatal_def)

lemma calculateScoreLoop_no_fatal:
  "\<not> hasFatal rules \<Longrightarrow>
   calculateScoreLoop rules e w =
     max 0 (100 - ((e + countSeverity SeverityError rules) * 15
                 + (w + countSeverity SeverityWarning rules) * 5))"
proof (induction rules arbitrary: e w)
  case Nil
  show ?case by (simp add: countSeverity_def Let_def max_def)
next
  case (Cons r rs)
  from Cons.prems have nf: "Severity r \<noteq> SeverityFatal" and rest: "\<not> hasFatal rs"
    by (simp_all add: hasFatal_def)
  show ?case
    using nf Cons.IH [OF rest] severity_names_distinct
    by (simp add: countSeverity_def algebra_simps)
qed

lemma calculateScore_formula:
  "calculateScore rules =
     (if hasFatal rules then 0
      else max 0 (100 - 15 * countSeverity SeverityError rules
                      - 5 * countSeverity SeverityWarning rules))"
  using calculateScoreLoop_fatal [of rules 0 0] calculateScoreLoop_no_fatal [of rules 0 0]
  by (simp add: calculateScore_def algebra_simps)

lemma calculateScore_range: "0 \<le> calculateScore rules \<and> calculateScore rules \<le> 100"
  by (simp add: calculateScore_formula countSeverity_def)

lemma hasFatal_insert_other:
  "Severity r \<noteq> SeverityFatal \<Longrightarrow> hasFatal (xs @ r # ys) = hasFatal (xs @ ys)"
  by (simp add: hasFatal_def)

lemma countSeverity_insert_other:
  "Severity r \<noteq> sev \<Longrightarrow> countSeverity sev (xs @ r # ys) = countSeverity sev (xs @ ys)"
  by (simp add: countSeverity_def)

lemma calculateScore_insert_other:
  assumes "Severity r \<noteq> SeverityFatal" "Severity r \<noteq> SeverityError"
    "Severity r \<noteq> SeverityWarning"
  shows "calculateScore (xs @ r # ys) = calculateScore (xs @ ys)"
  using assms
  by (simp add: calculateScore_formula hasFatal_insert_other countSeverity_insert_other)

text \<open>
  C10. For every rule list the scorer returns 0 when a rule of severity \<open>fatal\<close> is met;
  otherwise the penalty counts only the rules whose severity string is exactly
  \<open>error\<close> (15 each) or exactly \<open>warning\<close> (5 each). A rule with any other severity
  value, such as the empty string, contributes nothing: putting it anywhere in the list
  leaves the score as it was.
\<close>

theorem calculateScore_counts_named_severities_only:
  "(hasFatal rules \<longrightarrow> calculateScore rules = 0)
   \<and> (\<not> hasFatal rules \<longrightarrow>
        calculateScore rules =
          max 0 (100 - 15 * int (length (filter (\<lambda>x. Severity x = ''error'') rules))
                     - 5 * int (length (filter (\<lambda>x. Severity x = ''warning'') rules))))
   \<and> (Severity r \<notin> {''fatal'', ''error'', ''warning''} \<longrightarrow>
        calculateScore (xs @ r # ys) = calculateScore (xs @ ys))"
proof (intro conjI impI)
  assume "hasFatal rules"
  then show "calculateScore rules = 0" by (simp add: calculateScore_formula)
next
  assume "\<not> hasFatal rules"
  then show "calculateScore rules =
      max 0 (100 - 15 * int (length (filter (\<lambda>x. Severity x = ''error'') rules))
                 - 5 * int (length (filter (\<lambda>x. Severity x = ''warning'') rules)))"
    by (simp add: calculateScore_formula countSeverity_def SeverityError_def SeverityWarning_def)
next
  assume "Severity r \<notin> {''fatal'', ''error'', ''warning''}"
  then have "Severity r \<noteq> SeverityFatal" "Severity r \<noteq> SeverityError"
    "Severity r \<noteq> SeverityWarning"
    by (simp_all add: SeverityFatal_def SeverityError_def SeverityWarning_def)
  then show "calculateScore (xs @ r # ys) = calculateScore (xs @ ys)"
    by (rule calculateScore_insert_other)
qed

theorem calculateScore_counts_named_severities_only_witness:
  "\<not> hasFatal [exampleRule ''error'', exampleRule [], exampleRule ''warning'']
   \<and> calculateScore [exampleRule ''error'', exampleRule [], exampleRule ''warning''] = 80
   \<and> Severity (exampleRule []) \<notin> {''fatal'', ''error'', ''warning''}
   \<and> calculateScore ([exampleRule ''error''] @ exampleRule [] # [exampleRule ''warning''])
       = calculateScore ([exampleRule ''error''] @ [exampleRule ''warning''])
   \<and> hasFatal [exampleRule ''error'', exampleRule ''fatal'', exampleRule ''warning'']
   \<and> calculateScore [exampleRule ''error'', exampleRule ''fatal'', exampleRule ''warning''] = 0"
  using calculateScore_counts_named_severities_only
    [of "[exampleRule ''error'', exampleRule [], exampleRule ''warning'']"
        "exampleRule []" "[exampleRule ''error'']" "[exampleRule ''warning'']"]
    calculateScore_counts_named_severities_only
    [of "[exampleRule ''error'', exampleRule ''fatal'', exampleRule ''warning'']"
        "exampleRule []" "[]" "[]"]
  by (simp add: hasFatal_def exampleRule_def SeverityFatal_def)

section \<open>Facts about the string functions\<close>

lemma HasPrefix_single: "HasPrefix s [c] \<longleftrightarrow> s \<noteq> [] \<and> hd s = c"
  by (cases s) auto

lemma Contains_single: "Contains s [c] \<longleftrightarrow> c \<in> set s"
  by (induction s) auto

lemma Split_not_empty: "Split s sep \<noteq> []"
  by (induction s) (auto split: list.splits)

lemma Split_no_separator: "sep \<notin> set s \<Longrightarrow> Split s sep = [s]"
  by (induction s) auto

lemma Split_at_separator: "sep \<notin> set p \<Longrightarrow> Split (p @ sep # q) sep = p # Split q sep"
  by (induction p) auto

lemma Split_hd: "hd (Split s sep) = takeWhile (\<lambda>c. c \<noteq> sep) s"
proof (induction s)
  case Nil
  show ?case by simp
next
  case (Cons c cs)
  then show ?case using Split_not_empty [of cs sep] by (auto split: list.splits)
qed

lemma Split_length: "length (Split s sep) = Suc (count_list s sep)"
proof (induction s)
  case Nil
  show ?case by simp
next
  case (Cons c cs)
  then show ?case using Split_not_empty [of cs sep] by (auto split: list.splits)
qed

lemma split_first_separator:
  "sep \<in> set s \<Longrightarrow>
   s = takeWhile (\<lambda>c. c \<noteq> sep) s @ sep # tl (dropWhile (\<lambda>c. c \<noteq> sep) s)"
proof -
  assume "sep \<in> set s"
  then have "dropWhile (\<lambda>c. c \<noteq> sep) s \<noteq> []" by (simp add: dropWhile_eq_Nil_conv)
  moreover from this have "hd (dropWhile (\<lambda>c. c \<noteq> sep) s) = sep"
    using hd_dropWhile [of "\<lambda>c. c \<noteq> sep" s] by simp
  ultimately have "dropWhile (\<lambda>c. c \<noteq> sep) s = sep # tl (dropWhile (\<lambda>c. c \<noteq> sep) s)"
    by (cases "dropWhile (\<lambda>c. c \<noteq> sep) s") auto
  then show ?thesis using takeWhile_dropWhile_id [of "\<lambda>c. c \<noteq> sep" s] by metis
qed

lemma Split_two_parts:
  assumes "count_list s sep = 1"
  shows "Split s sep = [takeWhile (\<lambda>c. c \<noteq> sep) s, tl (dropWhile (\<lambda>c. c \<noteq> sep) s)]"
proof -
  let ?p = "takeWhile (\<lambda>c. c \<noteq> sep) s" and ?q = "tl (dropWhile (\<lambda>c. c \<noteq> sep) s)"
  from assms have mem: "sep \<in> set s" using count_list_0_iff [of s sep] by force
  then have s: "s = ?p @ sep # ?q" by (rule split_first_separator)
  have p: "sep \<notin> set ?p" using set_takeWhileD by fastforce
  then have cp: "count_list ?p sep = 0" by (simp add: count_list_0_iff)
  have "count_list s sep = count_list ?p sep + count_list (sep # ?q) sep"
    by (subst s) (simp only: count_list_append)
  with assms cp have "count_list ?q sep = 0" by simp
  then have q: "sep \<notin> set ?q" by (simp add: count_list_0_iff)
  have "Split (?p @ sep # ?q) sep = ?p # Split ?q sep" using p by (rule Split_at_separator)
  with q s show ?thesis by (simp add: Split_no_separator)
qed

text \<open>Trimming a string does not change its fields.\<close>

lemma HasPrefix_take: "HasPrefix s p \<Longrightarrow> take (length p) s = p"
  by (simp add: HasPrefix_iff)

lemma HasSuffix_drop: "HasSuffix s p \<Longrightarrow> drop (length s - length p) s = p"
proof -
  assume "HasSuffix s p"
  then have "take (length p) (rev s) = rev p"
    by (simp add: HasSuffix_def HasPrefix_iff)
  then have "rev (drop (length s - length p) s) = rev p" by (simp add: take_rev)
  then show ?thesis by simp
qed

lemma leadingSpace_rune:
  "leadingSpace s \<noteq> 0 \<Longrightarrow> take (leadingSpace s) s \<in> set spaceRunes"
  by (cases s rule: leadingSpace_cases) (auto dest: HasPrefix_take)

lemma trailingSpace_rune:
  "trailingSpace s \<noteq> 0 \<Longrightarrow> drop (length s - trailingSpace s) s \<in> set spaceRunes"
  by (cases s rule: trailingSpace_cases) (auto dest: HasSuffix_drop)

text \<open>No white-space rune starts inside the encoding of another, and none is the start
  of another.\<close>

lemma spaceRunes_heads:
  "list_all (\<lambda>q. list_all (\<lambda>r. hd r \<notin> set (tl q)) spaceRunes) spaceRunes"
  by code_simp

lemma spaceRunes_prefix_free:
  "list_all (\<lambda>q. list_all (\<lambda>r. HasPrefix r q \<longrightarrow> q = r) spaceRunes) spaceRunes"
  by code_simp

lemma HasPrefix_append_rune:
  assumes q: "q \<in> set spaceRunes" and r: "rune \<in> set spaceRunes" and s: "s \<noteq> []"
  shows "HasPrefix (s @ rune) q \<longleftrightarrow> HasPrefix s q"
proof (cases "length q \<le> length s")
  case True
  then show ?thesis by (simp add: HasPrefix_iff)
next
  case False
  then have less: "length s < length q" by simp
  have "\<not> HasPrefix (s @ rune) q"
  proof
    assume "HasPrefix (s @ rune) q"
    then have eq: "take (length q) (s @ rune) = q" by (rule HasPrefix_take)
    from r have rn: "rune \<noteq> []" by (rule spaceRunes_not_empty)
    from less have "q ! length s = take (length q) (s @ rune) ! length s" by (simp only: eq)
    also have "\<dots> = (s @ rune) ! length s" using less by (simp only: nth_take)
    also have "\<dots> = hd rune" using rn by (simp add: nth_append hd_conv_nth)
    finally have "q ! length s = hd rune" .
    moreover from s less have "q ! length s \<in> set (tl q)"
      by (cases q; cases s) auto
    ultimately have "hd rune \<in> set (tl q)" by simp
    with q r spaceRunes_heads show False by (auto simp: list_all_iff)
  qed
  moreover from False have "\<not> HasPrefix s q" by (auto dest: HasPrefix_length)
  ultimately show ?thesis by simp
qed

lemma leadingSpace_append_rune:
  assumes "rune \<in> set spaceRunes" and "s \<noteq> []"
  shows "leadingSpace (s @ rune) = leadingSpace s"
proof -
  have "find (HasPrefix (s @ rune)) spaceRunes = find (HasPrefix s) spaceRunes"
    using assms by (intro find_cong) (simp_all add: HasPrefix_append_rune)
  then show ?thesis by (simp add: leadingSpace_def)
qed

lemma leadingSpace_of_rune:
  assumes "rune \<in> set spaceRunes"
  shows "leadingSpace rune = length rune"
proof (cases rune rule: leadingSpace_cases)
  case none
  moreover have "HasPrefix rune rune" by (simp add: HasPrefix_iff)
  ultimately show ?thesis using assms by blast
next
  case (some q)
  with assms spaceRunes_prefix_free have "q = rune" by (auto simp: list_all_iff)
  with some show ?thesis by simp
qed

lemma fieldsFrom_append_rune:
  "rune \<in> set spaceRunes \<Longrightarrow> fieldsFrom cur (s @ rune) = fieldsFrom cur s"
proof (induction cur s rule: fieldsFrom.induct)
  case (1 cur s)
  note rune = \<open>rune \<in> set spaceRunes\<close>
  then have rn: "rune \<noteq> []" by (rule spaceRunes_not_empty)
  show ?case
  proof (cases "s = []")
    case True
    have "fieldsFrom cur rune = (if cur = [] then fieldsFrom [] [] else cur # fieldsFrom [] [])"
      using rn leadingSpace_of_rune [OF rune]
      by (subst fieldsFrom.simps) simp
    also have "\<dots> = fieldsFrom cur []"
      by (simp add: fieldsFrom.simps [of _ "[]"])
    finally show ?thesis using True by simp
  next
    case False
    note w = leadingSpace_append_rune [OF rune False]
    show ?thesis
    proof (cases "leadingSpace s = 0")
      case True
      have "fieldsFrom cur (s @ rune) = fieldsFrom (cur @ [hd s]) (tl s @ rune)"
        using False True w by (subst fieldsFrom.simps) simp
      also have "\<dots> = fieldsFrom (cur @ [hd s]) (tl s)"
        using False True rune by (intro "1.IH"(3)) simp_all
      also have "\<dots> = fieldsFrom cur s"
        using False True by (subst (2) fieldsFrom.simps) simp
      finally show ?thesis .
    next
      case some: False
      have d: "drop (leadingSpace s) (s @ rune) = drop (leadingSpace s) s @ rune"
        using leadingSpace_le [of s] by simp
      show ?thesis
      proof (cases "cur = []")
        case True
        have "fieldsFrom cur (s @ rune) = fieldsFrom [] (drop (leadingSpace s) s @ rune)"
          using False some w True d by (subst fieldsFrom.simps) simp
        also have "\<dots> = fieldsFrom [] (drop (leadingSpace s) s)"
          using False some True rune by (intro "1.IH"(1)) simp_all
        also have "\<dots> = fieldsFrom cur s"
          using False some True by (subst (2) fieldsFrom.simps) simp
        finally show ?thesis .
      next
        case nonempty: False
        have "fieldsFrom cur (s @ rune) = cur # fieldsFrom [] (drop (leadingSpace s) s @ rune)"
          using False some w nonempty d by (subst fieldsFrom.simps) simp
        also have "\<dots> = cur # fieldsFrom [] (drop (leadingSpace s) s)"
          using False some nonempty rune by (simp add: "1.IH"(2))
        also have "\<dots> = fieldsFrom cur s"
          using False some nonempty by (subst (2) fieldsFrom.simps) simp
        finally show ?thesis .
      qed
    qed
  qed
qed

lemma fieldsFrom_TrimLeftSpace: "fieldsFrom [] (TrimLeftSpace s) = fieldsFrom [] s"
proof (induction s rule: TrimLeftSpace.induct)
  case (1 s)
  show ?case
  proof (cases "leadingSpace s = 0")
    case True
    then show ?thesis by (simp add: TrimLeftSpace.simps [of s])
  next
    case False
    with leadingSpace_le [of s] have ne: "s \<noteq> []" by auto
    have "fieldsFrom [] (TrimLeftSpace s) = fieldsFrom [] (TrimLeftSpace (drop (leadingSpace s) s))"
      using False by (simp add: TrimLeftSpace.simps [of s])
    also have "\<dots> = fieldsFrom [] (drop (leadingSpace s) s)"
      using False by (rule "1.IH")
    also have "\<dots> = fieldsFrom [] s"
      using False ne by (subst (2) fieldsFrom.simps) simp
    finally show ?thesis .
  qed
qed

lemma fieldsFrom_TrimRightSpace: "fieldsFrom cur (TrimRightSpace s) = fieldsFrom cur s"
proof (induction s rule: TrimRightSpace.induct)
  case (1 s)
  show ?case
  proof (cases "trailingSpace s = 0")
    case True
    then show ?thesis by (simp add: TrimRightSpace.simps [of s])
  next
    case False
    let ?front = "take (length s - trailingSpace s) s"
    let ?rune = "drop (length s - trailingSpace s) s"
    from False have rune: "?rune \<in> set spaceRunes" by (rule trailingSpace_rune)
    have "fieldsFrom cur (TrimRightSpace s) = fieldsFrom cur (TrimRightSpace ?front)"
      using False by (simp add: TrimRightSpace.simps [of s])
    also have "\<dots> = fieldsFrom cur ?front"
      using False by (rule "1.IH")
    also have "\<dots> = fieldsFrom cur (?front @ ?rune)"
      using rune by (simp only: fieldsFrom_append_rune)
    finally show ?thesis by simp
  qed
qed

lemma Fields_TrimSpace: "Fields (TrimSpace s) = Fields s"
  by (simp add: Fields_def TrimSpace_def fieldsFrom_TrimRightSpace fieldsFrom_TrimLeftSpace)

text \<open>A string that \<open>TrimSpace\<close> empties holds bytes of white-space runes only, so no
  backslash.\<close>

lemma TrimRightSpace_blank: "TrimRightSpace s = [] \<Longrightarrow> set s \<subseteq> set (concat spaceRunes)"
proof (induction s rule: TrimRightSpace.induct)
  case (1 s)
  show ?case
  proof (cases "trailingSpace s = 0")
    case True
    with "1.prems" show ?thesis by (simp add: TrimRightSpace.simps [of s])
  next
    case False
    let ?front = "take (length s - trailingSpace s) s"
    let ?rune = "drop (length s - trailingSpace s) s"
    from False have "?rune \<in> set spaceRunes" by (rule trailingSpace_rune)
    then have "set ?rune \<subseteq> set (concat spaceRunes)" by auto
    moreover from False "1.prems" have "TrimRightSpace ?front = []"
      by (simp add: TrimRightSpace.simps [of s])
    with False have "set ?front \<subseteq> set (concat spaceRunes)" by (rule "1.IH")
    moreover have "set s = set ?front \<union> set ?rune"
      using set_append [of ?front ?rune] by simp
    ultimately show ?thesis by simp
  qed
qed

lemma TrimLeftSpace_bytes: "set s \<subseteq> set (concat spaceRunes) \<union> set (TrimLeftSpace s)"
proof (induction s rule: TrimLeftSpace.induct)
  case (1 s)
  show ?case
  proof (cases "leadingSpace s = 0")
    case True
    then show ?thesis by (simp add: TrimLeftSpace.simps [of s])
  next
    case False
    let ?rune = "take (leadingSpace s) s"
    let ?rest = "drop (leadingSpace s) s"
    from False have "?rune \<in> set spaceRunes" by (rule leadingSpace_rune)
    then have "set ?rune \<subseteq> set (concat spaceRunes)" by auto
    moreover from False have "set ?rest \<subseteq> set (concat spaceRunes) \<union> set (TrimLeftSpace ?rest)"
      by (rule "1.IH")
    moreover from False have "TrimLeftSpace s = TrimLeftSpace ?rest"
      by (simp add: TrimLeftSpace.simps [of s])
    moreover have "set s = set ?rune \<union> set ?rest"
      using set_append [of ?rune ?rest] by simp
    ultimately show ?thesis by auto
  qed
qed

lemma TrimSpace_blank: "TrimSpace s = [] \<Longrightarrow> set s \<subseteq> set (concat spaceRunes)"
  using TrimRightSpace_blank [of "TrimLeftSpace s"] TrimLeftSpace_bytes [of s]
  by (auto simp: TrimSpace_def)

lemma backslash_no_space: "CHR 0x5C \<notin> set (concat spaceRunes)"
  by (simp add: spaceRunes_def)

lemma TrimSpace_Nil: "TrimSpace [] = []"
  by code_simp

section \<open>Properties of the facade\<close>

lemma appendRules_append: "appendRules parseRules newRules = parseRules @ newRules"
  by (simp add: appendRules_def)

lemma dispatchLoop_concat:
  "dispatchLoop unicode env children parseRules =
     parseRules @ concat (map (dispatchInstruction unicode env) children)"
  by (induction children arbitrary: parseRules) (simp_all add: appendRules_append)

lemma ParseDockerfile_success:
  assumes "ParseDockerfile unicode env dockerfileContent = Inr result"
  obtains parsed where "parserParse env dockerfileContent = Inr parsed"
    and "Rules result =
           passRules unicode env dockerfileContent parsed
             @ concat (map (dispatchInstruction unicode env) (AST parsed))"
    and "Score result = calculateScore (Rules result)"
proof (cases "parserParse env dockerfileContent")
  case (Inl err)
  with assms show ?thesis by (simp add: ParseDockerfile_def)
next
  case (Inr parsed)
  with assms have "result =
      \<lparr>Rules = dispatchLoop unicode env (AST parsed) (passRules unicode env dockerfileContent parsed),
       Score = calculateScore
                 (dispatchLoop unicode env (AST parsed) (passRules unicode env dockerfileContent parsed))\<rparr>"
    by (simp add: ParseDockerfile_def Let_def)
  then have "Rules result =
        passRules unicode env dockerfileContent parsed
          @ concat (map (dispatchInstruction unicode env) (AST parsed))"
    and "Score result = calculateScore (Rules result)"
    by (simp_all add: dispatchLoop_concat)
  with Inr that show ?thesis by blast
qed

text \<open>
  C1. Whenever \<open>ParseDockerfile\<close> succeeds, the score it returns is computed from the
  final rule list: it is 0 if a rule of the list has severity \<open>fatal\<close>, and otherwise
  \<open>max 0 (100 - 15 * errors - 5 * warnings)\<close>, where \<open>errors\<close> and \<open>warnings\<close> count the
  rules of the list with severity \<open>error\<close> and \<open>warning\<close>. So the score lies between 0
  and 100.
\<close>

theorem ParseDockerfile_score:
  assumes "ParseDockerfile unicode env dockerfileContent = Inr result"
  shows "(if hasFatal (Rules result) then Score result = 0
          else Score result =
                 max 0 (100 - 15 * countSeverity SeverityError (Rules result)
                            - 5 * countSeverity SeverityWarning (Rules result)))
         \<and> 0 \<le> Score result \<and> Score result \<le> 100"
proof -
  from assms have "Score result = calculateScore (Rules result)"
    by (rule ParseDockerfile_success)
  then show ?thesis
    using calculateScore_formula [of "Rules result"] calculateScore_range [of "Rules result"]
    by simp
qed

lemma example_parse:
  "ParseDockerfile unicode exampleCollaborators downloadDockerfile =
     Inr \<lparr>Rules = [unrecognizedInstructionRule downloadNode], Score = 0\<rparr>"
  by code_simp

theorem ParseDockerfile_score_witness:
  "ParseDockerfile exampleUnicode exampleCollaborators downloadDockerfile =
     Inr \<lparr>Rules = [unrecognizedInstructionRule downloadNode], Score = 0\<rparr>
   \<and> hasFatal (Rules \<lparr>Rules = [unrecognizedInstructionRule downloadNode], Score = 0\<rparr>)
   \<and> Score \<lparr>Rules = [unrecognizedInstructionRule downloadNode], Score = 0\<rparr> = 0"
  using ParseDockerfile_score [OF example_parse [of exampleUnicode]] example_parse [of exampleUnicode]
  by (simp add: hasFatal_def unrecognizedInstructionRule_def NewFatalRule_def)

lemma dispatch_unrecognized:
  assumes "ToUpper unicode (Value child) \<notin> set recognizedInstructions"
  shows "dispatchInstruction unicode env child = [unrecognizedInstructionRule child]"
  using assms by (simp add: dispatchInstruction_def recognizedInstructions_def)

lemma NewRule_severity:
  "Severity (NewErrorRule node code description url) = SeverityError"
  "Severity (NewWarningRule node code description url) = SeverityWarning"
  "Severity (NewFatalRule node code description url) = SeverityFatal"
  by (simp_all add: NewErrorRule_def NewWarningRule_def NewFatalRule_def)

lemma severity_names_distinct':
  "SeverityError \<noteq> SeverityFatal" "SeverityWarning \<noteq> SeverityFatal"
  "SeverityWarning \<noteq> SeverityError"
  using severity_names_distinct by simp_all

lemma exposeWarnings_severity:
  "r \<in> set (exposeWarnings unicode node args acc) \<Longrightarrow> r \<in> set acc \<or> Severity r = SeverityWarning"
proof (induction unicode node args acc rule: exposeWarnings.induct)
  case (1 unicode node exposeRules)
  then show ?case by simp
next
  case (2 unicode node current rest exposeRules)
  show ?case
  proof (cases "checkExposeProtoCasing unicode (ArgValue current)")
    case True
    with 2 show ?thesis by simp
  next
    case False
    with 2 have "r \<in> set (exposeRules @ [exposeProtoCasingRule node (ArgValue current)])
        \<or> Severity r = SeverityWarning" by simp
    then show ?thesis
      by (auto simp: exposeProtoCasingRule_def NewRule_severity)
  qed
qed

lemma exposeFirstError_severity:
  "exposeFirstError unicode node args = Some r \<Longrightarrow> Severity r = SeverityError"
  by (induction args)
    (auto simp: exposeInvalidFormatRule_def exposePortOutOfRangeRule_def
      exposeInvalidProtocolRule_def NewRule_severity split: if_splits)

lemma parseEXPOSE_severity:
  "r \<in> set (parseEXPOSE unicode node) \<Longrightarrow> Severity r = SeverityError \<or> Severity r = SeverityWarning"
  using exposeWarnings_severity [of r unicode node "Next node" "[]"]
    exposeFirstError_severity [of unicode node "Next node"]
  by (auto simp: parseEXPOSE_def invalidInstructionRule_def NewRule_severity
      split: if_splits option.splits)

lemma parseEXPOSE_not_fatal: "r \<in> set (parseEXPOSE unicode node) \<Longrightarrow> Severity r \<noteq> SeverityFatal"
  using parseEXPOSE_severity [of r unicode node] severity_names_distinct' by auto

lemma parseARG_severity:
  "r \<in> set (parseARG node) \<Longrightarrow> Severity r = SeverityError \<or> Severity r = SeverityWarning"
  by (auto simp: parseARG_def Let_def invalidInstructionRule_def argMissingNameRule_def
      argInvalidFormatRule_def argLegacyRule_def NewRule_severity split: if_splits)

lemma parseARG_not_fatal: "r \<in> set (parseARG node) \<Longrightarrow> Severity r \<noteq> SeverityFatal"
  using parseARG_severity [of r node] severity_names_distinct' by auto

text \<open>The list \<open>recognizedInstructions\<close> is exactly the set of keywords with a case in
  the dispatch: a keyword outside it falls to the default branch whatever the validators
  are, and a keyword in it does not.\<close>

lemma dispatch_default_iff:
  "(\<forall>env. dispatchInstruction unicode env child = [unrecognizedInstructionRule child])
     \<longleftrightarrow> ToUpper unicode (Value child) \<notin> set recognizedInstructions"
proof
  assume all: "\<forall>env. dispatchInstruction unicode env child = [unrecognizedInstructionRule child]"
  show "ToUpper unicode (Value child) \<notin> set recognizedInstructions"
  proof
    assume mem: "ToUpper unicode (Value child) \<in> set recognizedInstructions"
    have fatal: "Severity (unrecognizedInstructionRule child) = SeverityFatal"
      by (simp add: unrecognizedInstructionRule_def NewRule_severity)
    from all have d: "dispatchInstruction unicode exampleCollaborators child
        = [unrecognizedInstructionRule child]" by blast
    consider "ToUpper unicode (Value child) = ''EXPOSE''" | "ToUpper unicode (Value child) = ''ARG''"
      | "ToUpper unicode (Value child) \<noteq> ''EXPOSE''" "ToUpper unicode (Value child) \<noteq> ''ARG''" by blast
    then show False
    proof cases
      case 1
      then have "dispatchInstruction unicode exampleCollaborators child = parseEXPOSE unicode child"
        by (simp add: dispatchInstruction_def)
      with d fatal parseEXPOSE_not_fatal [of "unrecognizedInstructionRule child" unicode child]
      show False by simp
    next
      case 2
      then have "dispatchInstruction unicode exampleCollaborators child = parseARG child"
        by (simp add: dispatchInstruction_def)
      with d fatal parseARG_not_fatal [of "unrecognizedInstructionRule child" child]
      show False by simp
    next
      case 3
      with mem have "dispatchInstruction unicode exampleCollaborators child = []"
        by (auto simp: dispatchInstruction_def recognizedInstructions_def
            exampleCollaborators_def)
      with d show False by simp
    qed
  qed
next
  assume "ToUpper unicode (Value child) \<notin> set recognizedInstructions"
  then show "\<forall>env. dispatchInstruction unicode env child = [unrecognizedInstructionRule child]"
    by (simp add: dispatch_unrecognized)
qed

lemma hasFatal_member: "r \<in> set rs \<Longrightarrow> Severity r = SeverityFatal \<Longrightarrow> hasFatal rs"
  by (auto simp: hasFatal_def list_ex_iff)

text \<open>
  C3, as stated, speaks of 19 recognized instruction keywords. The dispatch has 18 cases.
\<close>

theorem recognized_keywords_counterexample:
  "card (set recognizedInstructions) = 18 \<and> card (set recognizedInstructions) \<noteq> 19"
proof -
  have "distinct recognizedInstructions"
    by (simp add: recognizedInstructions_def)
  then have "card (set recognizedInstructions) = length recognizedInstructions"
    by (rule distinct_card)
  then show ?thesis by (simp add: recognizedInstructions_def)
qed

text \<open>
  C3, amended. For every instruction whose keyword, uppercased, is not one of the 18
  recognized instruction keywords, the dispatch of \<open>ParseDockerfile\<close> emits exactly one
  rule for it, with code \<open>UnrecognizedInstruction\<close> and severity \<open>fatal\<close>; the score of
  the result is then 0, and the rule list still holds the rules of every pass and of
  every other instruction: it is the rules of the passes followed by what the dispatch
  gives for each instruction in turn.
\<close>

theorem ParseDockerfile_unrecognized:
  assumes ok: "ParseDockerfile unicode env dockerfileContent = Inr result"
    and parsed: "parserParse env dockerfileContent = Inr parsed"
    and child: "child \<in> set (AST parsed)"
    and unknown: "ToUpper unicode (Value child) \<notin> set recognizedInstructions"
  shows "length recognizedInstructions = 18
    \<and> dispatchInstruction unicode env child = [unrecognizedInstructionRule child]
    \<and> Code (unrecognizedInstructionRule child) = ''UnrecognizedInstruction''
    \<and> Severity (unrecognizedInstructionRule child) = ''fatal''
    \<and> StartLine (unrecognizedInstructionRule child) = NodeStartLine child
    \<and> EndLine (unrecognizedInstructionRule child) = NodeEndLine child
    \<and> Rules result =
        passRules unicode env dockerfileContent parsed
          @ concat (map (dispatchInstruction unicode env) (AST parsed))
    \<and> unrecognizedInstructionRule child \<in> set (Rules result)
    \<and> Score result = 0"
proof -
  have d: "dispatchInstruction unicode env child = [unrecognizedInstructionRule child]"
    using unknown by (rule dispatch_unrecognized)
  from ok obtain parsed' where p': "parserParse env dockerfileContent = Inr parsed'"
    and rs: "Rules result =
           passRules unicode env dockerfileContent parsed'
             @ concat (map (dispatchInstruction unicode env) (AST parsed'))"
    and sc: "Score result = calculateScore (Rules result)"
    by (rule ParseDockerfile_success)
  from p' parsed have eq: "parsed' = parsed" by simp
  have mem: "unrecognizedInstructionRule child \<in> set (Rules result)"
    using rs eq child d by force
  have fatal: "Severity (unrecognizedInstructionRule child) = SeverityFatal"
    by (simp add: unrecognizedInstructionRule_def NewFatalRule_def)
  from mem fatal have "hasFatal (Rules result)" by (rule hasFatal_member)
  then have "Score result = 0" using sc by (simp add: calculateScore_formula)
  then show ?thesis
    using d rs eq mem fatal
    by (simp add: recognizedInstructions_def unrecognizedInstructionRule_def NewFatalRule_def
        SeverityFatal_def)
qed

lemma example_parser_result:
  "parserParse exampleCollaborators downloadDockerfile
     = Inr \<lparr>AST = downloadAST, Warnings = []\<rparr>"
  by (simp add: exampleCollaborators_def exampleParser_def)

theorem ParseDockerfile_unrecognized_witness:
  "ParseDockerfile exampleUnicode exampleCollaborators downloadDockerfile =
     Inr \<lparr>Rules = [unrecognizedInstructionRule downloadNode], Score = 0\<rparr>
   \<and> downloadNode \<in> set (AST \<lparr>AST = downloadAST, Warnings = []\<rparr>)
   \<and> ToUpper exampleUnicode (Value downloadNode) \<notin> set recognizedInstructions
   \<and> dispatchInstruction exampleUnicode exampleCollaborators downloadNode
       = [unrecognizedInstructionRule downloadNode]
   \<and> Severity (unrecognizedInstructionRule downloadNode) = ''fatal''
   \<and> Score \<lparr>Rules = [unrecognizedInstructionRule downloadNode], Score = 0\<rparr> = 0"
proof -
  have c: "downloadNode \<in> set (AST \<lparr>AST = downloadAST, Warnings = []\<rparr>)"
    by (simp add: downloadAST_def)
  have u: "ToUpper exampleUnicode (Value downloadNode) \<notin> set recognizedInstructions"
    by code_simp
  show ?thesis
    using ParseDockerfile_unrecognized [OF example_parse example_parser_result c u]
      example_parse [of exampleUnicode] c u
    by simp
qed

section \<open>The continuation scanner, line by line\<close>

text \<open>
  The scanner reports exactly the lines that end in a backslash (after trailing blanks)
  and are followed by a blank line; the rule ends on that blank line. A following line
  with a comment is not blank and gives no rule.
\<close>

lemma HasPrefix_single_mem: "HasPrefix s [c] \<Longrightarrow> c \<in> set s"
  by (cases s) auto

lemma blank_not_continued: "TrimSpace s = [] \<Longrightarrow> \<not> endsWithBackslash s"
proof
  assume blank: "TrimSpace s = []" and e: "endsWithBackslash s"
  from e have "HasPrefix (rev (TrimRight s lineCutset)) [CHR 0x5C]"
    by (simp add: endsWithBackslash_def HasSuffix_def backslash_def)
  then have "CHR 0x5C \<in> set (rev (TrimRight s lineCutset))"
    by (rule HasPrefix_single_mem)
  then have "CHR 0x5C \<in> set s"
    using set_dropWhileD [of "CHR 0x5C" _ "rev s"]
    by (auto simp: TrimRight_def)
  with TrimSpace_blank [OF blank] backslash_no_space show False by blast
qed

lemma checkEmptyContinuationsLoop_concat:
  "checkEmptyContinuationsLoop lines i rules =
     rules @ concat (map (continuationRuleAt lines) [i..<length lines])"
proof (induction lines i rules rule: checkEmptyContinuationsLoop.induct)
  case (1 lines i rules)
  show ?case
  proof (cases "i < length lines")
    case False
    then show ?thesis by (simp add: checkEmptyContinuationsLoop.simps [of lines i rules])
  next
    case inside: True
    then have upt: "[i..<length lines] = i # [i + 1..<length lines]"
      by (simp add: upt_conv_Cons)
    show ?thesis
    proof (cases "continuationRuleAt lines i = []")
      case True
      then have c: "\<not> endsWithBackslash (lines ! i) \<or> \<not> i + 1 < length lines
          \<or> TrimSpace (lines ! (i + 1)) \<noteq> []"
        by (auto simp: continuationRuleAt_def split: if_splits)
      have step: "checkEmptyContinuationsLoop lines i rules
          = checkEmptyContinuationsLoop lines (i + 1) rules"
        using inside c
        by (subst checkEmptyContinuationsLoop.simps) (auto simp: Let_def)
      have ih: "checkEmptyContinuationsLoop lines (i + 1) rules
          = rules @ concat (map (continuationRuleAt lines) [i + 1..<length lines])"
      proof (cases "endsWithBackslash (lines ! i)")
        case False
        with inside show ?thesis by (rule "1.IH"(1))
      next
        case e: True
        show ?thesis
        proof (cases "length lines \<le> i + 1")
          case True
          with inside e show ?thesis by (intro "1.IH"(2)) auto
        next
          case False
          with c e have "TrimSpace (lines ! (i + 1)) \<noteq> []" by auto
          with inside e False show ?thesis by (intro "1.IH"(4)) auto
        qed
      qed
      show ?thesis unfolding step ih upt using True by simp
    next
      case False
      then have e: "endsWithBackslash (lines ! i)" and n: "i + 1 < length lines"
        and b: "TrimSpace (lines ! (i + 1)) = []"
        and r: "continuationRuleAt lines i
            = [noEmptyContinuationRule (searchInstructionLine lines i (int i + 1)) (int i + 2)]"
        by (auto simp: continuationRuleAt_def split: if_splits)
      let ?rule = "noEmptyContinuationRule (searchInstructionLine lines i (int i + 1)) (int i + 2)"
      have step: "checkEmptyContinuationsLoop lines i rules
          = checkEmptyContinuationsLoop lines (i + 1 + 1) (rules @ [?rule])"
        using inside e n b
        by (subst checkEmptyContinuationsLoop.simps) (simp add: Let_def)
      have ih: "checkEmptyContinuationsLoop lines (i + 1 + 1) (rules @ [?rule])
          = (rules @ [?rule]) @ concat (map (continuationRuleAt lines) [i + 1 + 1..<length lines])"
        using inside e n b by (intro "1.IH"(3)) auto
      have skip: "continuationRuleAt lines (i + 1) = []"
        using blank_not_continued [OF b] by (simp add: continuationRuleAt_def)
      have upt2: "[i + 1..<length lines] = (i + 1) # [i + 1 + 1..<length lines]"
        using n by (simp add: upt_conv_Cons)
      show ?thesis unfolding step ih upt upt2 using r skip by simp
    qed
  qed
qed

lemma checkEmptyContinuations_by_line:
  "checkEmptyContinuations dockerfileContent =
     concat (map (continuationRuleAt (Split dockerfileContent (CHR 0x0A)))
               [0..<length (Split dockerfileContent (CHR 0x0A))])"
  by (simp add: checkEmptyContinuations_def checkEmptyContinuationsLoop_concat)

section \<open>The start line of an empty continuation\<close>

text \<open>
  When the line with the backslash opens its instruction and the line before it is a
  complete line of its own (not blank, no backslash at its end), the backward search
  returns the number of that earlier line, one less than the number of the line where
  the instruction starts.
\<close>

lemma searchInstructionLine_previous_line:
  assumes "endsWithBackslash (lines ! Suc j)"
    and "TrimSpace (lines ! j) \<noteq> []" and "\<not> endsWithBackslash (lines ! j)"
  shows "searchInstructionLine lines (Suc j) instructionLine = int (Suc j)"
  using assms by (cases j) (simp_all add: Let_def)

text \<open>
  C6. The scanner is to report an empty continuation from the first line of the
  instruction that contains the backslash, up to the empty line. The end line and the
  choice of the lines to report are as described (\<open>checkEmptyContinuations_by_line\<close>).
  The start line is not: the backward search skips every line that ends in a backslash,
  the first line of the instruction among them, and stops at the line before. For
  \<^verbatim>\<open>FROM alpine\<close>, \<^verbatim>\<open>RUN apk add \\<close>, an empty line and \<^verbatim>\<open>curl\<close>, the
  rule it emits starts at line 1, the FROM line, and not at line 2.
\<close>

theorem checkEmptyContinuations_start_line:
  "Split continuationDockerfile (CHR 0x0A)
     = [''FROM alpine'', ''RUN apk add '' @ backslash, [], ''    curl'']
   \<and> checkEmptyContinuations continuationDockerfile = [noEmptyContinuationRule 1 3]
   \<and> StartLine (noEmptyContinuationRule 1 3) = 1"
  by code_simp

section \<open>What every rule of the undefined-variable pass has\<close>

lemma undefinedVarShape_rules:
  "undefinedVarShape (undefinedVarRule child varName)"
  "undefinedVarShape (undefinedVarRuleNoSeverity child varName)"
  by (simp_all add: undefinedVarShape_def undefinedVarRule_def undefinedVarRuleNoSeverity_def)

lemma reportUndefined_subset:
  "set (reportUndefined mk stageVars varRefs rules) \<subseteq> set rules \<union> range mk"
proof (induction varRefs arbitrary: rules)
  case Nil
  show ?case by simp
next
  case (Cons varName varRefs)
  show ?case
    using Cons.IH [of rules] Cons.IH [of "rules @ [mk varName]"] by auto
qed

lemma checkFlagList_subset:
  "set (checkFlagList mk stageVars flags rules) \<subseteq> set rules \<union> range mk"
proof (induction flags arbitrary: rules)
  case Nil
  show ?case by simp
next
  case (Cons flag flags)
  show ?case
    using Cons.IH [of "reportUndefined mk stageVars (extractVariableReferences flag) rules"]
      reportUndefined_subset [of mk stageVars "extractVariableReferences flag" rules]
    by auto
qed

lemma checkExecTokens_subset:
  "set (checkExecTokens child stageVars args rules)
     \<subseteq> set rules \<union> range (undefinedVarRuleNoSeverity child)"
proof (induction args arbitrary: rules)
  case Nil
  show ?case by simp
next
  case (Cons current rest)
  show ?case
    using Cons.IH [of "reportUndefined (undefinedVarRuleNoSeverity child) stageVars
                         (extractVariableReferences (ArgValue current)) rules"]
      reportUndefined_subset [of "undefinedVarRuleNoSeverity child" stageVars
                                 "extractVariableReferences (ArgValue current)" rules]
    by auto
qed

lemma checkOtherArgs_subset:
  "set (checkOtherArgs child stageVars args rules)
     \<subseteq> set rules \<union> range (undefinedVarRule child) \<union> range (undefinedVarRuleNoSeverity child)"
proof (induction args arbitrary: rules)
  case Nil
  show ?case by auto
next
  case (Cons current rest)
  let ?r1 = "reportUndefined (undefinedVarRule child) stageVars
               (extractVariableReferences (ArgValue current)) rules"
  let ?r2 = "checkFlagList (undefinedVarRuleNoSeverity child) stageVars (ArgFlags current) ?r1"
  have "set ?r1 \<subseteq> set rules \<union> range (undefinedVarRule child)"
    by (rule reportUndefined_subset)
  moreover have "set ?r2 \<subseteq> set ?r1 \<union> range (undefinedVarRuleNoSeverity child)"
    by (rule checkFlagList_subset)
  moreover have "set (checkOtherArgs child stageVars rest ?r2)
      \<subseteq> set ?r2 \<union> range (undefinedVarRule child) \<union> range (undefinedVarRuleNoSeverity child)"
    by (rule Cons.IH)
  ultimately show ?case by auto
qed

lemma checkEnvValues_subset:
  "set (checkEnvValues child stageVars args rules)
     \<subseteq> set rules \<union> range (undefinedVarRuleNoSeverity child)"
proof (induction child stageVars args rules rule: checkEnvValues.induct)
  case (1 child stageVars rules)
  show ?case by simp
next
  case (2 child stageVars current rules)
  show ?case
    using reportUndefined_subset [of "undefinedVarRuleNoSeverity child" stageVars _ rules]
    by (auto simp: Let_def)
next
  case (3 child stageVars current nxt rest rules)
  note sub = reportUndefined_subset [of "undefinedVarRuleNoSeverity child" stageVars _ rules]
  show ?case
  proof (cases "Contains (ArgValue current) ''=''")
    case True
    show ?thesis
      using "3.IH"(1) [OF True refl] True sub by (auto simp: Let_def split: if_splits)
  next
    case False
    show ?thesis
      using "3.IH"(2) [OF False refl] False sub by (auto simp: Let_def split: if_splits)
  qed
qed


lemma undefinedVarStep_subset:
  "set (curRules (undefinedVarStep unicode globalArgs st child))
     \<subseteq> set (curRules st) \<union> range (undefinedVarRule child)
         \<union> range (undefinedVarRuleNoSeverity child)"
proof -
  let ?ins = "ToUpper unicode (Value child)"
  let ?goal = "set (curRules (undefinedVarStep unicode globalArgs st child))
     \<subseteq> set (curRules st) \<union> range (undefinedVarRule child)
         \<union> range (undefinedVarRuleNoSeverity child)"
  note ru1 = reportUndefined_subset [of "undefinedVarRule child"]
  note ru2 = reportUndefined_subset [of "undefinedVarRuleNoSeverity child"]
  consider (stageStart) "?ins = ''FROM''"
    | (outside) "?ins \<noteq> ''FROM''" "\<not> curInStage st"
    | (argDecl) "?ins \<noteq> ''FROM''" "curInStage st" "?ins = ''ARG''"
    | (envDecl) "?ins \<noteq> ''FROM''" "curInStage st" "?ins \<noteq> ''ARG''" "?ins = ''ENV''"
    | (command) "?ins \<noteq> ''FROM''" "curInStage st" "?ins \<noteq> ''ARG''" "?ins \<noteq> ''ENV''"
        "?ins = ''RUN'' \<or> ?ins = ''CMD'' \<or> ?ins = ''ENTRYPOINT''"
    | (other) "?ins \<noteq> ''FROM''" "curInStage st" "?ins \<noteq> ''ARG''" "?ins \<noteq> ''ENV''"
        "\<not> (?ins = ''RUN'' \<or> ?ins = ''CMD'' \<or> ?ins = ''ENTRYPOINT'')"
    by blast
  then show ?goal
  proof cases
    case stageStart
    let ?vars = "globalArgs \<union> predefinedArgs"
    let ?rules1 = "reportUndefined (undefinedVarRule child) ?vars
                     (extractVariableReferences (fromImageRef unicode child)) (curRules st)"
    have a: "set ?rules1 \<subseteq> set (curRules st) \<union> range (undefinedVarRule child)"
      by (rule ru1)
    have b: "set (reportUndefined (undefinedVarRuleNoSeverity child) ?vars
                    (extractVariableReferences (fromPlatformFlag unicode child)) ?rules1)
        \<subseteq> set ?rules1 \<union> range (undefinedVarRuleNoSeverity child)"
      by (rule ru2)
    from stageStart a b show ?thesis
      by (auto simp: undefinedVarStep_def Let_def)
  next
    case outside
    then show ?thesis by (auto simp: undefinedVarStep_def Let_def)
  next
    case argDecl
    have a: "set (reportUndefined (undefinedVarRuleNoSeverity child) vars refs (curRules st))
        \<subseteq> set (curRules st) \<union> range (undefinedVarRuleNoSeverity child)" for vars refs
      by (rule ru2)
    from argDecl show ?thesis
      using a by (auto simp: undefinedVarStep_def Let_def split: list.splits)
  next
    case envDecl
    have a: "set (checkEnvValues child vars (Next child) (curRules st))
        \<subseteq> set (curRules st) \<union> range (undefinedVarRuleNoSeverity child)" for vars
      by (rule checkEnvValues_subset)
    from envDecl show ?thesis
      using a by (auto simp: undefinedVarStep_def Let_def)
  next
    case command
    have a: "set (checkExecTokens child (curStageVars st) (Next child) (curRules st))
        \<subseteq> set (curRules st) \<union> range (undefinedVarRuleNoSeverity child)"
      by (rule checkExecTokens_subset)
    from command show ?thesis
      using a by (auto simp: undefinedVarStep_def Let_def)
  next
    case other
    let ?r = "checkOtherArgs child (curStageVars st) (Next child) (curRules st)"
    have a: "set ?r \<subseteq> set (curRules st) \<union> range (undefinedVarRule child)
        \<union> range (undefinedVarRuleNoSeverity child)"
      by (rule checkOtherArgs_subset)
    have b: "set (checkFlagList (undefinedVarRule child) (curStageVars st) (Flags child) ?r)
        \<subseteq> set ?r \<union> range (undefinedVarRule child)"
      by (rule checkFlagList_subset)
    from other have "curRules (undefinedVarStep unicode globalArgs st child)
        = checkFlagList (undefinedVarRule child) (curStageVars st) (Flags child) ?r"
      by (simp add: undefinedVarStep_def Let_def)
    with a b show ?thesis by auto
  qed
qed

lemma undefinedVarStep_shape:
  assumes "\<forall>r \<in> set (curRules st). undefinedVarShape r"
  shows "\<forall>r \<in> set (curRules (undefinedVarStep unicode globalArgs st child)). undefinedVarShape r"
  using assms undefinedVarStep_subset [of unicode globalArgs st child] undefinedVarShape_rules
  by auto

lemma undefinedVarLoop_shape:
  "\<forall>r \<in> set (curRules st). undefinedVarShape r \<Longrightarrow>
   \<forall>r \<in> set (curRules (undefinedVarLoop unicode globalArgs children st)). undefinedVarShape r"
proof (induction children arbitrary: st)
  case Nil
  then show ?case by simp
next
  case (Cons child children)
  have "\<forall>r \<in> set (curRules (undefinedVarStep unicode globalArgs st child)). undefinedVarShape r"
    using Cons.prems by (rule undefinedVarStep_shape)
  then have "\<forall>r \<in> set (curRules (undefinedVarLoop unicode globalArgs children
                                      (undefinedVarStep unicode globalArgs st child))).
               undefinedVarShape r"
    by (rule Cons.IH)
  then show ?case by simp
qed

lemma checkUndefinedVar_shape:
  assumes "r \<in> set (checkUndefinedVar unicode children)"
  shows "Code r = ''UndefinedVar'' \<and> (Severity r = ''error'' \<or> Severity r = [])"
proof -
  let ?st = "\<lparr>curInStage = False, curStageVars = {}, curRules = []\<rparr>"
  have "\<forall>r \<in> set (curRules ?st). undefinedVarShape r" by simp
  then have "\<forall>r \<in> set (curRules (undefinedVarLoop unicode (collectGlobalArgs unicode children {}) children ?st)).
      undefinedVarShape r"
    by (rule undefinedVarLoop_shape)
  moreover from assms have "r \<in> set (curRules
      (undefinedVarLoop unicode (collectGlobalArgs unicode children {}) children ?st))"
    by (simp add: checkUndefinedVar_def Let_def split: if_splits)
  ultimately have "undefinedVarShape r" by blast
  then show ?thesis by (simp add: undefinedVarShape_def SeverityError_def)
qed

section \<open>Severities of the undefined-variable pass\<close>

text \<open>
  C2. Every rule of the undefined-variable pass is to have the code \<open>UndefinedVar\<close> and
  the severity \<open>error\<close>. The code is as described (\<open>checkUndefinedVar_shape\<close>). Five of
  the eight places that build the rule leave the severity out: the rules for a FROM
  platform flag, an ARG default value, an ENV value and an exec-form token carry the empty
  string, which is none of \<open>fatal\<close>, \<open>error\<close>, \<open>warning\<close>. The rule for the WORKDIR
  argument, built by one of the other three places, has severity \<open>error\<close>.
\<close>

theorem checkUndefinedVar_missing_severity:
  "checkUndefinedVar unicode undefinedVarAST =
     [undefinedVarRuleNoSeverity platformVarNode ''P'',
      undefinedVarRuleNoSeverity argDefaultNode ''B'',
      undefinedVarRuleNoSeverity envValueNode ''D'',
      undefinedVarRuleNoSeverity execCmdNode ''E'',
      undefinedVarRule workdirVarNode ''F'']
   \<and> map Code (checkUndefinedVar unicode undefinedVarAST)
       = [''UndefinedVar'', ''UndefinedVar'', ''UndefinedVar'', ''UndefinedVar'', ''UndefinedVar'']
   \<and> map Severity (checkUndefinedVar unicode undefinedVarAST) = [[], [], [], [], ''error'']
   \<and> [] \<notin> {''fatal'', ''error'', ''warning''}"
  by code_simp

section \<open>The ARG validator: legacy form and name format\<close>

lemma anyPartWithoutEquals_iff:
  "anyPartWithoutEquals parts \<longleftrightarrow> (\<exists>part \<in> set parts. CHR ''='' \<notin> set part)"
  by (induction parts) (auto simp: Contains_single)

lemma allPartsWellFormed_iff:
  "allPartsWellFormed parts \<longleftrightarrow>
     (\<forall>part \<in> set parts. isValidARGName (takeWhile (\<lambda>c. c \<noteq> CHR ''='') part))"
proof (induction parts)
  case Nil
  show ?case by simp
next
  case (Cons part parts)
  show ?case
  proof (cases "CHR ''='' \<in> set part")
    case True
    then have "allPartsWellFormed (part # parts) \<longleftrightarrow>
        isValidARGName (takeWhile (\<lambda>c. c \<noteq> CHR ''='') part) \<and> allPartsWellFormed parts"
      by (simp add: Contains_single SplitN2_def)
    with Cons.IH show ?thesis by simp
  next
    case False
    have tw: "takeWhile (\<lambda>c. c \<noteq> CHR ''='') part = part"
      using False by (auto simp: takeWhile_eq_all_conv)
    have "allPartsWellFormed (part # parts) \<longleftrightarrow>
        isValidARGName part \<and> allPartsWellFormed parts"
      using False by (simp add: Contains_single)
    then show ?thesis unfolding Cons.IH by (simp add: tw)
  qed
qed

lemma arg_rule_fields:
  "Code (argLegacyRule node) = ''LegacyKeyValueFormat''"
  "Severity (argLegacyRule node) = ''warning''"
  "Code (argInvalidFormatRule node) = ''ArgInvalidFormat''"
  "Severity (argInvalidFormatRule node) = ''error''"
  by (simp_all add: argLegacyRule_def argInvalidFormatRule_def NewWarningRule_def
      NewErrorRule_def SeverityWarning_def SeverityError_def)

text \<open>
  C5, as stated, has the name-format check still emit \<open>ArgInvalidFormat\<close> for an ARG in
  the legacy form. \<open>parseARG\<close> runs the format check only when the instruction is not in
  the legacy form: for \<^verbatim>\<open>ARG 1foo bar\<close> the name \<open>1foo\<close> is malformed, and the
  only rule is the \<open>LegacyKeyValueFormat\<close> warning.
\<close>

theorem parseARG_legacy_counterexample:
  "\<not> isValidARGName ''1foo''
   \<and> parseARG (mkNode ''ARG'' [] [''1foo'', ''bar''] ''ARG 1foo bar'' 1)
       = [argLegacyRule (mkNode ''ARG'' [] [''1foo'', ''bar''] ''ARG 1foo bar'' 1)]
   \<and> ''ArgInvalidFormat''
       \<notin> set (map Code (parseARG (mkNode ''ARG'' [] [''1foo'', ''bar''] ''ARG 1foo bar'' 1)))"
  by code_simp

text \<open>
  C5, amended. Take an ARG instruction with arguments whose joined text is not blank, and
  its whitespace-separated tokens. If there are several tokens and at least one of them
  has no \<open>=\<close>, the validator emits the \<open>LegacyKeyValueFormat\<close> warning and nothing else:
  the name-format check is skipped. Otherwise (a single token, such as \<^verbatim>\<open>ARG foo\<close>,
  or every token with an \<open>=\<close>) there is no such warning, and the validator emits the
  \<open>ArgInvalidFormat\<close> error exactly when the name of some token, the part before its
  first \<open>=\<close>, does not match \<open>^[A-Za-z_][A-Za-z0-9_]*$\<close>.
\<close>

theorem parseARG_legacy_or_format:
  assumes "Next node \<noteq> []" and "TrimSpace (extractARGConfig node) \<noteq> []"
  shows "parseARG node =
     (if length (Fields (extractARGConfig node)) > 1
         \<and> (\<exists>token \<in> set (Fields (extractARGConfig node)). CHR ''='' \<notin> set token)
      then [argLegacyRule node]
      else if \<exists>token \<in> set (Fields (extractARGConfig node)).
                \<not> isValidARGName (takeWhile (\<lambda>c. c \<noteq> CHR ''='') token)
      then [argInvalidFormatRule node]
      else [])
    \<and> Code (argLegacyRule node) = ''LegacyKeyValueFormat''
    \<and> Severity (argLegacyRule node) = ''warning''
    \<and> Code (argInvalidFormatRule node) = ''ArgInvalidFormat''
    \<and> Severity (argInvalidFormatRule node) = ''error''"
proof -
  let ?tokens = "Fields (extractARGConfig node)"
  have legacy: "checkARGLegacySyntax (extractARGConfig node)
      \<longleftrightarrow> length ?tokens > 1 \<and> (\<exists>token \<in> set ?tokens. CHR ''='' \<notin> set token)"
    using assms(2)
    by (auto simp: checkARGLegacySyntax_def Let_def Fields_TrimSpace anyPartWithoutEquals_iff)
  have format: "\<not> checkARGFormat (extractARGConfig node)
      \<longleftrightarrow> (\<exists>token \<in> set ?tokens. \<not> isValidARGName (takeWhile (\<lambda>c. c \<noteq> CHR ''='') token))"
    using assms(2)
    by (simp add: checkARGFormat_def Let_def Fields_TrimSpace allPartsWellFormed_iff)
  have "parseARG node =
      (if checkARGLegacySyntax (extractARGConfig node) then [argLegacyRule node]
       else if \<not> checkARGFormat (extractARGConfig node) then [argInvalidFormatRule node]
       else [])"
    using assms by (simp add: parseARG_def Let_def)
  then have "parseARG node =
     (if length ?tokens > 1 \<and> (\<exists>token \<in> set ?tokens. CHR ''='' \<notin> set token)
      then [argLegacyRule node]
      else if \<exists>token \<in> set ?tokens. \<not> isValidARGName (takeWhile (\<lambda>c. c \<noteq> CHR ''='') token)
      then [argInvalidFormatRule node]
      else [])"
    by (simp only: legacy format)
  then show ?thesis
    by (simp only: arg_rule_fields simp_thms)
qed

theorem parseARG_legacy_or_format_witness:
  "Next (mkNode ''ARG'' [] [''foo'', ''bar''] ''ARG foo bar'' 1) \<noteq> []
   \<and> TrimSpace (extractARGConfig (mkNode ''ARG'' [] [''foo'', ''bar''] ''ARG foo bar'' 1)) \<noteq> []
   \<and> Fields (extractARGConfig (mkNode ''ARG'' [] [''foo'', ''bar''] ''ARG foo bar'' 1))
       = [''foo'', ''bar'']
   \<and> parseARG (mkNode ''ARG'' [] [''foo'', ''bar''] ''ARG foo bar'' 1)
       = [argLegacyRule (mkNode ''ARG'' [] [''foo'', ''bar''] ''ARG foo bar'' 1)]
   \<and> Next (mkNode ''ARG'' [] [''foo''] ''ARG foo'' 1) \<noteq> []
   \<and> TrimSpace (extractARGConfig (mkNode ''ARG'' [] [''foo''] ''ARG foo'' 1)) \<noteq> []
   \<and> parseARG (mkNode ''ARG'' [] [''foo''] ''ARG foo'' 1) = []
   \<and> Next (mkNode ''ARG'' [] [''1user''] ''ARG 1user'' 1) \<noteq> []
   \<and> TrimSpace (extractARGConfig (mkNode ''ARG'' [] [''1user''] ''ARG 1user'' 1)) \<noteq> []
   \<and> parseARG (mkNode ''ARG'' [] [''1user''] ''ARG 1user'' 1)
       = [argInvalidFormatRule (mkNode ''ARG'' [] [''1user''] ''ARG 1user'' 1)]"
proof -
  let ?two = "mkNode ''ARG'' [] [''foo'', ''bar''] ''ARG foo bar'' 1"
  let ?one = "mkNode ''ARG'' [] [''foo''] ''ARG foo'' 1"
  let ?bad = "mkNode ''ARG'' [] [''1user''] ''ARG 1user'' 1"
  have n2: "Next ?two \<noteq> []" and n1: "Next ?one \<noteq> []" and nb: "Next ?bad \<noteq> []"
    by (simp_all add: mkNode_def)
  have t2: "TrimSpace (extractARGConfig ?two) \<noteq> []"
    and t1: "TrimSpace (extractARGConfig ?one) \<noteq> []"
    and tb: "TrimSpace (extractARGConfig ?bad) \<noteq> []"
    by code_simp+
  have f2: "Fields (extractARGConfig ?two) = [''foo'', ''bar'']"
    and f1: "Fields (extractARGConfig ?one) = [''foo'']"
    and fb: "Fields (extractARGConfig ?bad) = [''1user'']"
    by code_simp+
  have v: "isValidARGName ''foo''" "\<not> isValidARGName ''1user''"
    by code_simp+
  have r2: "parseARG ?two = [argLegacyRule ?two]"
    using parseARG_legacy_or_format [OF n2 t2] by (simp add: f2)
  have r1: "parseARG ?one = []"
    using parseARG_legacy_or_format [OF n1 t1] v by (simp add: f1)
  have rb: "parseARG ?bad = [argInvalidFormatRule ?bad]"
    using parseARG_legacy_or_format [OF nb tb] v by (simp add: fb)
  from n2 n1 nb t2 t1 tb f2 r2 r1 rb show ?thesis by simp
qed

section \<open>The EXPOSE validator: the first error\<close>

lemma checkExposeFormat_iff: "checkExposeFormat v \<longleftrightarrow> CHR '':'' \<notin> set v"
  using count_list_0_iff [of v "CHR '':''"] by (auto simp: checkExposeFormat_def)

lemma portStr_is_prefix:
  "(if Contains v ''/'' then hd (Split v (CHR ''/'')) else v) = portPrefix v"
proof (cases "CHR ''/'' \<in> set v")
  case True
  then show ?thesis by (simp add: Contains_single Split_hd portPrefix_def)
next
  case False
  then have tw: "takeWhile (\<lambda>c. c \<noteq> CHR ''/'') v = v"
    by (auto simp: takeWhile_eq_all_conv)
  from False show ?thesis unfolding portPrefix_def tw by (simp add: Contains_single)
qed

lemma checkExposePortRange_iff: "checkExposePortRange v \<longleftrightarrow> portInRange v"
  unfolding checkExposePortRange_def portInRange_def Let_def portStr_is_prefix
  by (simp split: option.splits)

lemma checkExposeValidProtocol_iff:
  "checkExposeValidProtocol unicode v \<longleftrightarrow>
     (if count_list v (CHR ''/'') = 1 then ToLower unicode (protocolPart v) \<in> {''tcp'', ''udp''}
      else True)"
proof (cases "count_list v (CHR ''/'') = 1")
  case True
  then have mem: "CHR ''/'' \<in> set v" using count_list_0_iff [of v "CHR ''/''"] by force
  from True have "Split v (CHR ''/'') = [portPrefix v, protocolPart v]"
    unfolding portPrefix_def protocolPart_def by (rule Split_two_parts)
  with True mem show ?thesis
    by (simp add: checkExposeValidProtocol_def Contains_single Let_def)
next
  case False
  then have "CHR ''/'' \<in> set v \<Longrightarrow> length (Split v (CHR ''/'')) \<noteq> 2"
    by (simp add: Split_length)
  with False show ?thesis
    by (auto simp: checkExposeValidProtocol_def Contains_single Let_def)
qed

lemma exposeAccepted_checks:
  "exposeAccepted unicode v \<longleftrightarrow>
     checkExposeFormat v \<and> checkExposePortRange v \<and> checkExposeValidProtocol unicode v"
  unfolding exposeAccepted_def checkExposeFormat_iff checkExposePortRange_iff
    checkExposeValidProtocol_iff by (rule refl)

lemma exposeFirstError_skips_accepted:
  "\<forall>b \<in> set pre. exposeAccepted unicode (ArgValue b) \<Longrightarrow>
   exposeFirstError unicode node (pre @ rest) = exposeFirstError unicode node rest"
  by (induction pre) (simp_all add: exposeAccepted_checks)

lemma exposeFirstError_all_accepted:
  "\<forall>b \<in> set args. exposeAccepted unicode (ArgValue b) \<Longrightarrow> exposeFirstError unicode node args = None"
  using exposeFirstError_skips_accepted [of args unicode node "[]"] by simp

lemma exposeFirstError_here:
  "exposeFirstError unicode node (a # post) =
     (if CHR '':'' \<in> set (ArgValue a) then Some (exposeInvalidFormatRule node (ArgValue a))
      else if \<not> portInRange (ArgValue a) then Some (exposePortOutOfRangeRule node (ArgValue a))
      else if count_list (ArgValue a) (CHR ''/'') = 1
              \<and> ToLower unicode (protocolPart (ArgValue a)) \<notin> {''tcp'', ''udp''}
        then Some (exposeInvalidProtocolRule node (ArgValue a))
      else exposeFirstError unicode node post)"
  by (simp add: checkExposeFormat_iff checkExposePortRange_iff checkExposeValidProtocol_iff)

lemma Atoi_non_numeric:
  assumes "c \<in> set s" and "c \<notin> set ''+-0123456789''"
  shows "Atoi s = None"
proof -
  let ?ds = "if s \<noteq> [] \<and> (hd s = CHR ''-'' \<or> hd s = CHR ''+'') then tl s else s"
  from assms obtain x xs where s: "s = x # xs" by (cases s) auto
  from assms have "c \<noteq> CHR ''-''" "c \<noteq> CHR ''+''" "c \<notin> set digit_chars"
    by (auto simp: digit_chars_def)
  with assms(1) s have "c \<in> set ?ds" "c \<notin> set digit_chars" by auto
  then have "\<not> list_all (\<lambda>c. c \<in> set digit_chars) ?ds"
    by (auto simp: list_all_iff)
  then show ?thesis by (simp add: Atoi_def Let_def)
qed

lemma expose_rule_fields:
  "Code (exposeInvalidFormatRule node v) = ''ExposeInvalidFormat''"
  "Code (exposePortOutOfRangeRule node v) = ''ExposePortOutOfRange''"
  "Code (exposeInvalidProtocolRule node v) = ''ExposeInvalidProtocol''"
  "Severity (exposeInvalidFormatRule node v) = ''error''"
  "Severity (exposePortOutOfRangeRule node v) = ''error''"
  "Severity (exposeInvalidProtocolRule node v) = ''error''"
  by (simp_all add: exposeInvalidFormatRule_def exposePortOutOfRangeRule_def
      exposeInvalidProtocolRule_def NewErrorRule_def SeverityError_def)

text \<open>
  The arguments of an EXPOSE instruction are checked in order and only the first error is
  returned. Let \<open>a\<close> be an argument such that every argument before it passes the three
  checks. If \<open>a\<close> contains a colon the result is \<open>ExposeInvalidFormat\<close>; otherwise, if
  \<open>strconv.Atoi\<close> reads the part of \<open>a\<close> before its first slash as an integer outside
  0..65535, the result is \<open>ExposePortOutOfRange\<close>; otherwise, if \<open>a\<close> has exactly one
  slash and the lower-cased text after it is neither \<open>tcp\<close> nor \<open>udp\<close>, the result is
  \<open>ExposeInvalidProtocol\<close>. A part before the slash with a character that is neither a
  sign nor a digit, such as a variable, passes the range check.
\<close>

lemma parseEXPOSE_checks_in_order:
  assumes args: "Next node = pre @ a # post"
    and before: "\<forall>b \<in> set pre. exposeAccepted unicode (ArgValue b)"
  shows "(CHR '':'' \<in> set (ArgValue a) \<longrightarrow>
            parseEXPOSE unicode node = [exposeInvalidFormatRule node (ArgValue a)])
    \<and> (CHR '':'' \<notin> set (ArgValue a) \<and> Atoi (portPrefix (ArgValue a)) = Some port
          \<and> (port < 0 \<or> 65535 < port) \<longrightarrow>
            parseEXPOSE unicode node = [exposePortOutOfRangeRule node (ArgValue a)])
    \<and> ((\<exists>c \<in> set (portPrefix (ArgValue a)). c \<notin> set ''+-0123456789'') \<longrightarrow>
          checkExposePortRange (ArgValue a))
    \<and> (CHR '':'' \<notin> set (ArgValue a) \<and> portInRange (ArgValue a)
          \<and> count_list (ArgValue a) (CHR ''/'') = 1
          \<and> ToLower unicode (protocolPart (ArgValue a)) \<notin> {''tcp'', ''udp''} \<longrightarrow>
            parseEXPOSE unicode node = [exposeInvalidProtocolRule node (ArgValue a)])"
proof -
  have ne: "Next node \<noteq> []" using args by simp
  have first: "exposeFirstError unicode node (Next node) = exposeFirstError unicode node (a # post)"
    unfolding args using before by (rule exposeFirstError_skips_accepted)
  have p: "parseEXPOSE unicode node =
      (case exposeFirstError unicode node (a # post) of Some rule \<Rightarrow> [rule]
       | None \<Rightarrow> exposeWarnings unicode node (Next node) [])"
    using ne by (simp add: parseEXPOSE_def first)
  have c1: "CHR '':'' \<in> set (ArgValue a) \<longrightarrow>
            parseEXPOSE unicode node = [exposeInvalidFormatRule node (ArgValue a)]"
    unfolding p exposeFirstError_here by simp
  have c2: "CHR '':'' \<notin> set (ArgValue a) \<and> Atoi (portPrefix (ArgValue a)) = Some port
          \<and> (port < 0 \<or> 65535 < port) \<longrightarrow>
            parseEXPOSE unicode node = [exposePortOutOfRangeRule node (ArgValue a)]"
    unfolding p exposeFirstError_here by (auto simp: portInRange_def)
  have c3: "(\<exists>c \<in> set (portPrefix (ArgValue a)). c \<notin> set ''+-0123456789'') \<longrightarrow>
          checkExposePortRange (ArgValue a)"
    using Atoi_non_numeric [of _ "portPrefix (ArgValue a)"]
    by (auto simp: checkExposePortRange_iff portInRange_def)
  have c4: "CHR '':'' \<notin> set (ArgValue a) \<and> portInRange (ArgValue a)
          \<and> count_list (ArgValue a) (CHR ''/'') = 1
          \<and> ToLower unicode (protocolPart (ArgValue a)) \<notin> {''tcp'', ''udp''} \<longrightarrow>
            parseEXPOSE unicode node = [exposeInvalidProtocolRule node (ArgValue a)]"
    unfolding p exposeFirstError_here by simp
  from c1 c2 c3 c4 show ?thesis by (simp only: simp_thms)
qed

lemma parseEXPOSE_port_bounds:
  "parseEXPOSE unicode (mkNode ''EXPOSE'' [] [''65535''] ''EXPOSE 65535'' 1) = []
   \<and> map Code (parseEXPOSE unicode (mkNode ''EXPOSE'' [] [''65536''] ''EXPOSE 65536'' 1))
       = [''ExposePortOutOfRange'']
   \<and> map Code (parseEXPOSE unicode (mkNode ''EXPOSE'' [] [''80/sctp''] ''EXPOSE 80/sctp'' 1))
       = [''ExposeInvalidProtocol'']"
  by code_simp

text \<open>
  C9. An argument of EXPOSE with a \<open>/proto\<close> suffix whose protocol, in lower case, is
  neither \<open>tcp\<close> nor \<open>udp\<close> is to yield \<open>ExposeInvalidProtocol\<close>, and a port number
  outside 0..65535 is to yield \<open>ExposePortOutOfRange\<close>. The order of the checks, the
  first-error rule and the bounds 65535 and 65536 are as described
  (\<open>parseEXPOSE_checks_in_order\<close>, \<open>parseEXPOSE_port_bounds\<close>). Two arguments escape:
  \<open>checkExposeValidProtocol\<close> returns \<open>true\<close> whenever the argument does not split into
  exactly two parts at its slashes, so \<^verbatim>\<open>EXPOSE 80/sctp/x\<close>, whose protocol is neither
  \<open>tcp\<close> nor \<open>udp\<close>, produces no rule at all; and \<open>checkExposePortRange\<close> accepts
  whatever \<open>strconv.Atoi\<close> rejects, a number too large for 64 bits included, so
  \<^verbatim>\<open>EXPOSE 99999999999999999999\<close> produces no rule either.
\<close>

theorem parseEXPOSE_protocol_not_checked:
  "ToLower unicode ''sctp/x'' \<notin> {''tcp'', ''udp''} \<and> ToLower unicode ''x'' \<notin> {''tcp'', ''udp''}
   \<and> parseEXPOSE unicode (mkNode ''EXPOSE'' [] [''80/sctp/x''] ''EXPOSE 80/sctp/x'' 1) = []
   \<and> parseEXPOSE unicode
         (mkNode ''EXPOSE'' [] [''99999999999999999999''] ''EXPOSE 99999999999999999999'' 1) = []"
  by code_simp

section \<open>JSON arguments: suppression by SHELL\<close>

lemma hasShell_iff: "hasShell unicode children \<longleftrightarrow> (\<exists>child \<in> set children. ToUpper unicode (Value child) = ''SHELL'')"
  by (induction children) auto

lemma jsonArgsLoop_step:
  "jsonArgsLoop unicode hasShellInstruction (child # children) rules =
     jsonArgsLoop unicode hasShellInstruction children (rules @ jsonArgsFor unicode hasShellInstruction child)"
  by (auto simp: jsonArgsFor_def Let_def)

lemma jsonArgsLoop_concat:
  "jsonArgsLoop unicode hasShellInstruction children rules =
     rules @ concat (map (jsonArgsFor unicode hasShellInstruction) children)"
proof (induction children arbitrary: rules)
  case Nil
  show ?case by simp
next
  case (Cons child children)
  show ?case unfolding jsonArgsLoop_step Cons.IH by simp
qed

lemma jsonArgsFor_no_shell:
  "jsonArgsFor unicode False =
     (\<lambda>child.
        if (ToUpper unicode (Value child) = ''CMD'' \<or> ToUpper unicode (Value child) = ''ENTRYPOINT'')
           \<and> trimmedOriginal child \<noteq> [] \<and> \<not> HasPrefix (trimmedOriginal child) ''[''
        then [jsonArgsRule child (ToUpper unicode (Value child))] else [])"
  by (rule ext) (simp add: jsonArgsFor_def)

lemma jsonArgsFor_shell: "jsonArgsFor unicode True child = []"
  by (simp add: jsonArgsFor_def)

lemma checkJSONArgsRecommended_concat:
  "checkJSONArgsRecommended unicode children = concat (map (jsonArgsFor unicode (hasShell unicode children)) children)"
  by (cases children) (simp_all add: checkJSONArgsRecommended_def jsonArgsLoop_concat)

text \<open>
  C7, as stated, has every CMD and ENTRYPOINT whose argument region does not begin with
  \<open>[\<close> get a warning when there is no SHELL instruction. The pass steps over an
  instruction whose argument region is empty: a CMD without arguments gets none.
\<close>

theorem checkJSONArgsRecommended_empty_counterexample:
  "\<not> hasShell exampleUnicode [fromAlpineNode, bareCmdNode]
   \<and> ToUpper exampleUnicode (Value bareCmdNode) = ''CMD''
   \<and> \<not> HasPrefix (trimmedOriginal bareCmdNode) ''[''
   \<and> checkJSONArgsRecommended exampleUnicode [fromAlpineNode, bareCmdNode] = []"
  by code_simp

text \<open>
  C7, amended. If the Dockerfile contains a SHELL instruction anywhere, no
  \<open>JSONArgsRecommended\<close> rule is emitted. Otherwise the pass emits, in the order of the
  instructions, exactly one \<open>JSONArgsRecommended\<close> warning for every CMD and ENTRYPOINT
  instruction whose original argument region is not empty and does not begin with \<open>[\<close>,
  and nothing for any other instruction.
\<close>

theorem checkJSONArgsRecommended_shell_suppresses:
  "((\<exists>child \<in> set children. ToUpper unicode (Value child) = ''SHELL'') \<longrightarrow>
      checkJSONArgsRecommended unicode children = [])
   \<and> (\<not> (\<exists>child \<in> set children. ToUpper unicode (Value child) = ''SHELL'') \<longrightarrow>
      checkJSONArgsRecommended unicode children =
        concat (map (\<lambda>child.
          if (ToUpper unicode (Value child) = ''CMD'' \<or> ToUpper unicode (Value child) = ''ENTRYPOINT'')
             \<and> trimmedOriginal child \<noteq> [] \<and> \<not> HasPrefix (trimmedOriginal child) ''[''
          then [jsonArgsRule child (ToUpper unicode (Value child))] else []) children))
   \<and> Code (jsonArgsRule child instruction) = ''JSONArgsRecommended''
   \<and> Severity (jsonArgsRule child instruction) = ''warning''
   \<and> StartLine (jsonArgsRule child instruction) = NodeStartLine child
   \<and> EndLine (jsonArgsRule child instruction) = NodeEndLine child"
proof -
  have a: "(\<exists>child \<in> set children. ToUpper unicode (Value child) = ''SHELL'') \<longrightarrow>
      checkJSONArgsRecommended unicode children = []"
  proof
    assume "\<exists>child \<in> set children. ToUpper unicode (Value child) = ''SHELL''"
    then have "hasShell unicode children" by (simp add: hasShell_iff)
    then show "checkJSONArgsRecommended unicode children = []"
      by (simp add: checkJSONArgsRecommended_concat jsonArgsFor_shell)
  qed
  have b: "\<not> (\<exists>child \<in> set children. ToUpper unicode (Value child) = ''SHELL'') \<longrightarrow>
      checkJSONArgsRecommended unicode children =
        concat (map (\<lambda>child.
          if (ToUpper unicode (Value child) = ''CMD'' \<or> ToUpper unicode (Value child) = ''ENTRYPOINT'')
             \<and> trimmedOriginal child \<noteq> [] \<and> \<not> HasPrefix (trimmedOriginal child) ''[''
          then [jsonArgsRule child (ToUpper unicode (Value child))] else []) children)"
  proof
    assume "\<not> (\<exists>child \<in> set children. ToUpper unicode (Value child) = ''SHELL'')"
    then have "\<not> hasShell unicode children" by (simp add: hasShell_iff)
    then show "checkJSONArgsRecommended unicode children =
        concat (map (\<lambda>child.
          if (ToUpper unicode (Value child) = ''CMD'' \<or> ToUpper unicode (Value child) = ''ENTRYPOINT'')
             \<and> trimmedOriginal child \<noteq> [] \<and> \<not> HasPrefix (trimmedOriginal child) ''[''
          then [jsonArgsRule child (ToUpper unicode (Value child))] else []) children)"
      by (simp only: checkJSONArgsRecommended_concat jsonArgsFor_no_shell)
  qed
  have c: "Code (jsonArgsRule child instruction) = ''JSONArgsRecommended''"
    "Severity (jsonArgsRule child instruction) = ''warning''"
    "StartLine (jsonArgsRule child instruction) = NodeStartLine child"
    "EndLine (jsonArgsRule child instruction) = NodeEndLine child"
    by (simp_all add: jsonArgsRule_def SeverityWarning_def)
  from a b c show ?thesis by (intro conjI)
qed

theorem checkJSONArgsRecommended_shell_suppresses_witness:
  "ToUpper exampleUnicode (Value shellNode) = ''SHELL''
   \<and> checkJSONArgsRecommended exampleUnicode [fromAlpineNode, cmdEchoNode, shellNode] = []
   \<and> ToUpper exampleUnicode (Value fromAlpineNode) \<noteq> ''SHELL'' \<and> ToUpper exampleUnicode (Value cmdEchoNode) \<noteq> ''SHELL''
   \<and> checkJSONArgsRecommended exampleUnicode [fromAlpineNode, cmdEchoNode] = [jsonArgsRule cmdEchoNode ''CMD'']"
proof -
  have s: "ToUpper exampleUnicode (Value shellNode) = ''SHELL''" by code_simp
  have n: "ToUpper exampleUnicode (Value fromAlpineNode) \<noteq> ''SHELL''" "ToUpper exampleUnicode (Value cmdEchoNode) \<noteq> ''SHELL''"
    by code_simp+
  have e: "ToUpper exampleUnicode (Value fromAlpineNode) = ''FROM''" "ToUpper exampleUnicode (Value cmdEchoNode) = ''CMD''"
    "trimmedOriginal cmdEchoNode = ''echo hi''"
    by code_simp+
  have r1: "checkJSONArgsRecommended exampleUnicode [fromAlpineNode, cmdEchoNode, shellNode] = []"
    using checkJSONArgsRecommended_shell_suppresses
      [where children = "[fromAlpineNode, cmdEchoNode, shellNode]" and unicode = exampleUnicode
         and child = shellNode and instruction = "''CMD''"] s
    by simp
  have r2: "checkJSONArgsRecommended exampleUnicode [fromAlpineNode, cmdEchoNode]
      = [jsonArgsRule cmdEchoNode ''CMD'']"
    using checkJSONArgsRecommended_shell_suppresses
      [where children = "[fromAlpineNode, cmdEchoNode]" and unicode = exampleUnicode
         and child = cmdEchoNode and instruction = "''CMD''"] n
    by (simp add: e)
  from s n r1 r2 show ?thesis by simp
qed

section \<open>Duplicate stage names: every occurrence, grouped by name\<close>

lemma declarationsOf_Cons:
  "declarationsOf unicode key (child # children) =
     (if ToUpper unicode (Value child) = ''FROM'' \<and> fromStageName unicode child \<noteq> []
         \<and> ToLower unicode (fromStageName unicode child) = key
      then [\<lparr>originalName = fromStageName unicode child, startLine = NodeStartLine child,
             endLine = NodeEndLine child\<rparr>]
      else [])
     @ declarationsOf unicode key children"
  by (simp add: declarationsOf_def stageDeclarations_def)

lemma declarationsOf_Nil: "declarationsOf unicode key [] = []"
  by (simp add: declarationsOf_def stageDeclarations_def)

lemma collectStageNames_lookup:
  "collectStageNames unicode children stageNames key =
     (if declarationsOf unicode key children = [] then stageNames key
      else Some (stageEntries stageNames key @ declarationsOf unicode key children))"
proof (induction children arbitrary: stageNames)
  case Nil
  show ?case by (simp add: declarationsOf_Nil)
next
  case (Cons child children)
  show ?case
  proof (cases "ToUpper unicode (Value child) = ''FROM'' \<and> fromStageName unicode child \<noteq> []")
    case False
    then have "collectStageNames unicode (child # children) stageNames
        = collectStageNames unicode children stageNames"
      by (auto simp: Let_def)
    moreover from False have "declarationsOf unicode key (child # children) = declarationsOf unicode key children"
      by (auto simp: declarationsOf_Cons)
    ultimately show ?thesis by (simp only: Cons.IH)
  next
    case True
    let ?info = "\<lparr>originalName = fromStageName unicode child, startLine = NodeStartLine child,
                   endLine = NodeEndLine child\<rparr>"
    let ?m = "stageNames(ToLower unicode (fromStageName unicode child) \<mapsto>
                stageEntries stageNames (ToLower unicode (fromStageName unicode child)) @ [?info])"
    from True have step: "collectStageNames unicode (child # children) stageNames
        = collectStageNames unicode children ?m"
      by (simp add: Let_def)
    show ?thesis
    proof (cases "ToLower unicode (fromStageName unicode child) = key")
      case same: True
      with True have d: "declarationsOf unicode key (child # children)
          = ?info # declarationsOf unicode key children"
        by (simp add: declarationsOf_Cons)
      from same have e: "stageEntries ?m key = stageEntries stageNames key @ [?info]"
        and l: "?m key = Some (stageEntries stageNames key @ [?info])"
        by (simp_all add: stageEntries_def)
      show ?thesis unfolding step Cons.IH d e l by simp
    next
      case other: False
      with True have d: "declarationsOf unicode key (child # children) = declarationsOf unicode key children"
        by (simp add: declarationsOf_Cons)
      from other have e: "stageEntries ?m key = stageEntries stageNames key"
        and l: "?m key = stageNames key"
        by (simp_all add: stageEntries_def)
      show ?thesis unfolding step Cons.IH d e l by simp
    qed
  qed
qed

lemma collected_entries:
  "stageEntries (collectStageNames unicode children Map.empty) key = declarationsOf unicode key children"
  by (simp add: stageEntries_def collectStageNames_lookup)

lemma collected_keys:
  "dom (collectStageNames unicode children Map.empty)
     = set (map (\<lambda>stage. ToLower unicode (originalName stage)) (stageDeclarations unicode children))"
proof -
  have "declarationsOf unicode key children \<noteq> [] \<longleftrightarrow>
      key \<in> set (map (\<lambda>stage. ToLower unicode (originalName stage)) (stageDeclarations unicode children))" for key
    by (auto simp: declarationsOf_def filter_empty_conv)
  then show ?thesis
    by (auto simp: dom_def collectStageNames_lookup)
qed

lemma validKeyOrder_iff:
  "validKeyOrder unicode keyOrder children \<longleftrightarrow>
     distinct keyOrder
     \<and> set keyOrder = set (map (\<lambda>stage. ToLower unicode (originalName stage)) (stageDeclarations unicode children))"
  by (simp add: validKeyOrder_def collected_keys)

lemma findDuplicates_concat:
  "findDuplicates stageNames keys rules =
     rules @ concat (map (\<lambda>key. if length (stageEntries stageNames key) > 1
                                 then map duplicateStageRule (stageEntries stageNames key)
                                 else []) keys)"
  by (induction keys arbitrary: rules) (simp_all add: Let_def)

lemma concat_map_if_filter:
  "concat (map (\<lambda>x. if P x then f x else []) xs) = concat (map f (filter P xs))"
  by (induction xs) simp_all

lemma checkDuplicateStageNames_by_key:
  "checkDuplicateStageNames unicode keyOrder children =
     concat (map (\<lambda>key. map duplicateStageRule (declarationsOf unicode key children))
               (filter (\<lambda>key. length (declarationsOf unicode key children) > 1) keyOrder))"
proof (cases children)
  case Nil
  then show ?thesis
    by (simp add: checkDuplicateStageNames_def declarationsOf_Nil)
next
  case (Cons child rest)
  then have "checkDuplicateStageNames unicode keyOrder children
      = findDuplicates (collectStageNames unicode children Map.empty) keyOrder []"
    by (simp add: checkDuplicateStageNames_def)
  then show ?thesis
    by (simp only: findDuplicates_concat collected_entries concat_map_if_filter append_Nil)
qed

lemma mset_groups:
  "distinct keys \<Longrightarrow>
   mset (concat (map (\<lambda>key. filter (\<lambda>x. f x = key) xs) keys))
     = mset (filter (\<lambda>x. f x \<in> set keys) xs)"
proof (induction keys)
  case Nil
  show ?case by simp
next
  case (Cons key keys)
  then have notin: "key \<notin> set keys" and d: "distinct keys" by simp_all
  have "mset (filter (\<lambda>x. f x = key) xs) + mset (filter (\<lambda>x. f x \<in> set keys) xs)
      = mset (filter (\<lambda>x. f x \<in> set (key # keys)) xs)"
    using notin by (induction xs) auto
  with Cons.IH [OF d] show ?case by simp
qed

lemma duplicate_rule_fields:
  "Code (duplicateStageRule stage) = ''DuplicateStageName''"
  "Severity (duplicateStageRule stage) = ''error''"
  "StartLine (duplicateStageRule stage) = startLine stage"
  "EndLine (duplicateStageRule stage) = endLine stage"
  by (simp_all add: duplicateStageRule_def SeverityError_def)

text \<open>
  Whatever order the map of names is visited in: for every stage name declared with AS on
  two or more FROM instructions (compared case-insensitively), a \<open>DuplicateStageName\<close>
  error is emitted at every occurrence, and at no other FROM. The rules come grouped by
  lower-cased name; within a group they follow the order of the FROM instructions; the
  groups follow the order in which the map is visited.
\<close>

lemma checkDuplicateStageNames_every_occurrence:
  assumes "validKeyOrder unicode keyOrder children"
  shows "mset (checkDuplicateStageNames unicode keyOrder children)
           = mset (map duplicateStageRule
                     (filter (declaredTwice unicode children) (stageDeclarations unicode children)))
    \<and> checkDuplicateStageNames unicode keyOrder children
        = concat (map (\<lambda>key. map duplicateStageRule (declarationsOf unicode key children))
                    (filter (\<lambda>key. length (declarationsOf unicode key children) > 1) keyOrder))
    \<and> Code (duplicateStageRule stage) = ''DuplicateStageName''
    \<and> Severity (duplicateStageRule stage) = ''error''
    \<and> StartLine (duplicateStageRule stage) = startLine stage
    \<and> EndLine (duplicateStageRule stage) = endLine stage"
proof -
  let ?decls = "stageDeclarations unicode children"
  let ?key = "\<lambda>stage. ToLower unicode (originalName stage)"
  let ?dups = "filter (\<lambda>key. length (declarationsOf unicode key children) > 1) keyOrder"
  from assms have d: "distinct keyOrder" and k: "set keyOrder = set (map ?key ?decls)"
    by (simp_all add: validKeyOrder_iff)
  have groups: "checkDuplicateStageNames unicode keyOrder children
      = concat (map (\<lambda>key. map duplicateStageRule (declarationsOf unicode key children)) ?dups)"
    by (rule checkDuplicateStageNames_by_key)
  have a: "concat (map (\<lambda>key. map duplicateStageRule (declarationsOf unicode key children)) ?dups)
      = map duplicateStageRule (concat (map (\<lambda>key. filter (\<lambda>x. ?key x = key) ?decls) ?dups))"
    by (simp add: map_concat declarationsOf_def comp_def)
  have "distinct ?dups" using d by simp
  then have b: "mset (concat (map (\<lambda>key. filter (\<lambda>x. ?key x = key) ?decls) ?dups))
      = mset (filter (\<lambda>x. ?key x \<in> set ?dups) ?decls)"
    by (rule mset_groups)
  have c: "filter (\<lambda>x. ?key x \<in> set ?dups) ?decls = filter (declaredTwice unicode children) ?decls"
    using k by (intro filter_cong) (auto simp: declaredTwice_def)
  have "mset (checkDuplicateStageNames unicode keyOrder children)
      = mset (map duplicateStageRule
                (concat (map (\<lambda>key. filter (\<lambda>x. ?key x = key) ?decls) ?dups)))"
    by (simp only: groups a)
  also have "\<dots> = image_mset duplicateStageRule
                  (mset (concat (map (\<lambda>key. filter (\<lambda>x. ?key x = key) ?decls) ?dups)))"
    by (rule mset_map)
  also have "\<dots> = image_mset duplicateStageRule
                  (mset (filter (declaredTwice unicode children) ?decls))"
    by (simp only: b c)
  also have "\<dots> = mset (map duplicateStageRule (filter (declaredTwice unicode children) ?decls))"
    by (rule mset_map [symmetric])
  finally have all: "mset (checkDuplicateStageNames unicode keyOrder children)
      = mset (map duplicateStageRule (filter (declaredTwice unicode children) ?decls))" .
  from all groups show ?thesis by (simp only: duplicate_rule_fields simp_thms)
qed

lemma checkDuplicateStageNames_every_occurrence_example:
  "validKeyOrder unicode [''build''] buildStages
   \<and> map originalName (filter (declaredTwice unicode buildStages) (stageDeclarations unicode buildStages))
       = [''build'', ''BUILD'']
   \<and> checkDuplicateStageNames unicode [''build''] buildStages
       = map duplicateStageRule (stageDeclarations unicode buildStages)
   \<and> map StartLine (checkDuplicateStageNames unicode [''build''] buildStages) = [1, 2]"
proof -
  have "map (\<lambda>stage. ToLower unicode (originalName stage)) (stageDeclarations unicode buildStages)
      = [''build'', ''build'']"
    by code_simp
  then have v: "validKeyOrder unicode [''build''] buildStages"
    by (auto simp: validKeyOrder_iff)
  have e: "declarationsOf unicode ''build'' buildStages = stageDeclarations unicode buildStages"
    "length (stageDeclarations unicode buildStages) = 2"
    "map originalName (filter (declaredTwice unicode buildStages) (stageDeclarations unicode buildStages))
       = [''build'', ''BUILD'']"
    "map StartLine (map duplicateStageRule (stageDeclarations unicode buildStages)) = [1, 2]"
    by code_simp+
  from checkDuplicateStageNames_every_occurrence [OF v]
  have "checkDuplicateStageNames unicode [''build''] buildStages
      = map duplicateStageRule (stageDeclarations unicode buildStages)"
    by (simp add: e)
  with v e show ?thesis by simp
qed

text \<open>
  C4. The rules of the pass are to appear in the order of the FROM instructions, not
  grouped by name. The pass emits them while ranging over a Go map keyed by name, where
  the other passes walk the instructions once more: with the stages \<open>a\<close>, \<open>b\<close>,
  \<open>a\<close>, \<open>b\<close> on lines 1 to 4 the rules come out as lines 1, 3, 2, 4 or as lines
  2, 4, 1, 3, depending on the order in which the map is visited, and never as
  1, 2, 3, 4.
\<close>

theorem checkDuplicateStageNames_order_by_map:
  "map StartLine (map duplicateStageRule (stageDeclarations unicode alternatingStages)) = [1, 2, 3, 4]
   \<and> map StartLine (checkDuplicateStageNames unicode [''a'', ''b''] alternatingStages) = [1, 3, 2, 4]
   \<and> map StartLine (checkDuplicateStageNames unicode [''b'', ''a''] alternatingStages) = [2, 4, 1, 3]
   \<and> validKeyOrder unicode [''a'', ''b''] alternatingStages
   \<and> validKeyOrder unicode [''b'', ''a''] alternatingStages"
proof -
  have "map StartLine (map duplicateStageRule (stageDeclarations unicode alternatingStages)) = [1, 2, 3, 4]"
    "map StartLine (checkDuplicateStageNames unicode [''a'', ''b''] alternatingStages) = [1, 3, 2, 4]"
    "map StartLine (checkDuplicateStageNames unicode [''b'', ''a''] alternatingStages) = [2, 4, 1, 3]"
    by code_simp+
  moreover have "map (\<lambda>stage. ToLower unicode (originalName stage)) (stageDeclarations unicode alternatingStages)
      = [''a'', ''b'', ''a'', ''b'']"
    by code_simp
  then have "validKeyOrder unicode [''a'', ''b''] alternatingStages"
    "validKeyOrder unicode [''b'', ''a''] alternatingStages"
    by (auto simp: validKeyOrder_iff)
  ultimately show ?thesis by simp
qed

section \<open>Constant platforms: which stages count as referenced\<close>

lemma collectStageNameSet_eq:
  "collectStageNameSet unicode children stageNames =
     stageNames \<union> {ToLower unicode (fromStageName unicode child) | child.
                      child \<in> set children \<and> ToUpper unicode (Value child) = ''FROM''
                      \<and> fromStageName unicode child \<noteq> []}"
  by (induction children arbitrary: stageNames) (auto simp: Let_def)

lemma declaredStageNames_eq:
  "declaredStageNames unicode children =
     {ToLower unicode (fromStageName unicode child) | child.
        child \<in> set children \<and> ToUpper unicode (Value child) = ''FROM'' \<and> fromStageName unicode child \<noteq> []}"
  by (simp add: declaredStageNames_def collectStageNameSet_eq)

lemma collectReferencedStages_step:
  "collectReferencedStages unicode stageNames (child # children) referencedStages =
     collectReferencedStages unicode stageNames children
       (referencedStages \<union>
          {stage. ToUpper unicode (Value child) = ''FROM''
                  \<and> referencesStage unicode stageNames (fromImageRef unicode child) stage})"
proof -
  have "{stage. referencesStage unicode stageNames (fromImageRef unicode child) stage} =
      (if fromImageRef unicode child = [] then {}
       else if ToLower unicode (fromImageRef unicode child) \<in> stageNames then {ToLower unicode (fromImageRef unicode child)}
       else Set.filter (\<lambda>stageName.
              HasPrefix (ToLower unicode (fromImageRef unicode child)) (extractStagePrefix stageName)) stageNames)"
    by (auto simp: referencesStage_def)
  then show ?thesis
    by (cases "ToUpper unicode (Value child) = ''FROM''") (auto simp: Let_def)
qed

lemma collectReferencedStages_eq:
  "collectReferencedStages unicode stageNames children referencedStages =
     referencedStages \<union>
       {stage. \<exists>child \<in> set children. ToUpper unicode (Value child) = ''FROM''
                 \<and> referencesStage unicode stageNames (fromImageRef unicode child) stage}"
proof (induction children arbitrary: referencedStages)
  case Nil
  show ?case by simp
next
  case (Cons child children)
  show ?case unfolding collectReferencedStages_step Cons.IH by auto
qed

lemma referencedStagesOf_iff:
  "ToLower unicode stageName \<in> referencedStagesOf unicode children \<longleftrightarrow>
     (\<exists>j < length children. referencedBy unicode children j stageName)"
proof -
  have "ToLower unicode stageName \<in> referencedStagesOf unicode children \<longleftrightarrow>
      (\<exists>child \<in> set children. ToUpper unicode (Value child) = ''FROM''
         \<and> referencesStage unicode (declaredStageNames unicode children) (fromImageRef unicode child)
              (ToLower unicode stageName))"
    by (simp add: referencedStagesOf_def collectReferencedStages_eq)
  also have "\<dots> \<longleftrightarrow> (\<exists>j < length children. referencedBy unicode children j stageName)"
    unfolding referencedBy_def by (metis in_set_conv_nth)
  finally show ?thesis .
qed

lemma flagConstantPlatforms_step:
  "flagConstantPlatforms unicode referencedStages (child # children) rules =
     flagConstantPlatforms unicode referencedStages children
       (rules @ platformRuleFor unicode referencedStages child)"
  by (auto simp: platformRuleFor_def Let_def)

lemma flagConstantPlatforms_concat:
  "flagConstantPlatforms unicode referencedStages children rules =
     rules @ concat (map (platformRuleFor unicode referencedStages) children)"
proof (induction children arbitrary: rules)
  case Nil
  show ?case by simp
next
  case (Cons child children)
  show ?case unfolding flagConstantPlatforms_step Cons.IH by simp
qed

lemma checkPlatformFlagConstDisallowed_concat:
  "checkPlatformFlagConstDisallowed unicode children =
     concat (map (platformRuleFor unicode (referencedStagesOf unicode children)) children)"
  by (cases children)
    (simp_all add: checkPlatformFlagConstDisallowed_def flagConstantPlatforms_concat
      referencedStagesOf_def declaredStageNames_def Let_def)


lemma checkPlatformConstant_iff:
  "checkPlatformConstant platform \<longleftrightarrow>
     TrimSpace platform \<noteq> [] \<and> hd (TrimSpace platform) \<noteq> CHR ''$''"
  by (auto simp: checkPlatformConstant_def Let_def HasPrefix_single)

lemma checkPlatformConstant_not_empty: "checkPlatformConstant platform \<Longrightarrow> platform \<noteq> []"
  by (auto simp: checkPlatformConstant_iff TrimSpace_Nil)

text \<open>What the pass does for one FROM instruction, in full.\<close>

lemma platformRuleFor_iff:
  assumes "i < length children"
  shows "platformRuleFor unicode (referencedStagesOf unicode children) (children ! i) =
     (if ToUpper unicode (Value (children ! i)) = ''FROM''
         \<and> checkPlatformConstant (fromPlatformFlag unicode (children ! i))
         \<and> (fromStageName unicode (children ! i) = []
            \<or> \<not> (\<exists>j < length children. referencedBy unicode children j (fromStageName unicode (children ! i))))
      then [platformConstRule (children ! i) (fromPlatformFlag unicode (children ! i))] else [])"
  using checkPlatformConstant_not_empty [of "fromPlatformFlag unicode (children ! i)"]
    referencedStagesOf_iff [of unicode "fromStageName unicode (children ! i)" children]
  by (auto simp: platformRuleFor_def)

lemma platform_rule_fields:
  "Code (platformConstRule child platformFlag) = ''FromPlatformFlagConstDisallowed''"
  "Severity (platformConstRule child platformFlag) = ''warning''"
  "StartLine (platformConstRule child platformFlag) = NodeStartLine child"
  "EndLine (platformConstRule child platformFlag) = NodeEndLine child"
  by (simp_all add: platformConstRule_def SeverityWarning_def)

text \<open>
  C8, as stated, counts an image reference that begins with a stage's prefix as a
  reference to that stage. For the pass an image reference that is itself a stage name
  refers to that stage only: with \<^verbatim>\<open>FROM --platform=linux/amd64 alpine AS build_amd64\<close>,
  \<^verbatim>\<open>FROM alpine AS build\<close> and \<^verbatim>\<open>FROM build\<close>, the third image reference begins
  with \<open>build\<close>, the prefix of the first stage, and the first FROM is flagged all the same.
\<close>

theorem checkPlatformFlagConstDisallowed_exact_counterexample:
  "fromStageName exampleUnicode (exactReferenceStages ! 0) = ''build_amd64''
   \<and> extractStagePrefix ''build_amd64'' = ''build''
   \<and> fromImageRef exampleUnicode (exactReferenceStages ! 2) = ''build''
   \<and> HasPrefix ''build'' ''build''
   \<and> checkPlatformFlagConstDisallowed exampleUnicode exactReferenceStages
       = [platformConstRule (exactReferenceStages ! 0) ''linux/amd64'']"
  by code_simp

text \<open>
  The pass keeps names, not instructions, so a FROM can mark its own stage as referenced:
  in \<^verbatim>\<open>FROM --platform=linux/amd64 alpine AS a\<close> the image reference \<open>alpine\<close> begins
  with \<open>a\<close>, the prefix of the stage \<open>a\<close>, and the instruction is not flagged although
  no other FROM exists.
\<close>

lemma checkPlatformFlagConstDisallowed_self_reference:
  "referencedBy unicode selfReferencedStage 0 ''a''
   \<and> checkPlatformFlagConstDisallowed unicode selfReferencedStage = []"
  by code_simp

text \<open>
  C8, amended. The pass emits its rules in the order of the instructions, at most one
  \<open>FromPlatformFlagConstDisallowed\<close> warning for each. Take a FROM instruction whose
  \<open>--platform\<close> value, trimmed, is non-empty and does not start with \<open>$\<close>. The warning is
  emitted for it when it has no stage name, or when no FROM's image reference counts as a
  reference to its stage name. No warning is emitted for it when it has a stage name that
  another FROM's image reference counts as a reference to. (Nothing is said of a stage
  that only its own FROM refers to.) A non-empty image reference that equals a declared
  stage name, case-insensitively, counts as a reference to that stage and to no other;
  any other non-empty image reference counts as a reference to every declared stage
  whose prefix (the part of the lower-cased name before the first \<open>_\<close> or \<open>-\<close>, or all
  of it) it begins with, in lower case. No warning is emitted for an instruction that is
  not a FROM or whose platform is empty or starts with \<open>$\<close>.
\<close>

theorem checkPlatformFlagConstDisallowed_tolerance:
  assumes "i < length children"
  shows "checkPlatformFlagConstDisallowed unicode children
           = concat (map (platformRuleFor unicode (referencedStagesOf unicode children)) children)
    \<and> (ToUpper unicode (Value (children ! i)) = ''FROM''
          \<and> checkPlatformConstant (fromPlatformFlag unicode (children ! i))
          \<and> (fromStageName unicode (children ! i) = []
             \<or> \<not> (\<exists>j < length children. referencedBy unicode children j (fromStageName unicode (children ! i))))
        \<longrightarrow> platformRuleFor unicode (referencedStagesOf unicode children) (children ! i)
              = [platformConstRule (children ! i) (fromPlatformFlag unicode (children ! i))])
    \<and> (ToUpper unicode (Value (children ! i)) = ''FROM''
          \<and> fromStageName unicode (children ! i) \<noteq> []
          \<and> (\<exists>j < length children. j \<noteq> i
                \<and> referencedBy unicode children j (fromStageName unicode (children ! i)))
        \<longrightarrow> platformRuleFor unicode (referencedStagesOf unicode children) (children ! i) = [])
    \<and> (ToUpper unicode (Value (children ! i)) \<noteq> ''FROM''
          \<or> \<not> checkPlatformConstant (fromPlatformFlag unicode (children ! i))
        \<longrightarrow> platformRuleFor unicode (referencedStagesOf unicode children) (children ! i) = [])
    \<and> (checkPlatformConstant platform
          \<longleftrightarrow> TrimSpace platform \<noteq> [] \<and> hd (TrimSpace platform) \<noteq> CHR ''$'')
    \<and> (referencedBy unicode children j stageName
          \<longleftrightarrow> ToUpper unicode (Value (children ! j)) = ''FROM''
              \<and> fromImageRef unicode (children ! j) \<noteq> []
              \<and> (if ToLower unicode (fromImageRef unicode (children ! j)) \<in> declaredStageNames unicode children
                 then ToLower unicode stageName = ToLower unicode (fromImageRef unicode (children ! j))
                 else ToLower unicode stageName \<in> declaredStageNames unicode children
                      \<and> HasPrefix (ToLower unicode (fromImageRef unicode (children ! j)))
                                   (extractStagePrefix (ToLower unicode stageName))))
    \<and> declaredStageNames unicode children
        = {ToLower unicode (fromStageName unicode child) | child.
             child \<in> set children \<and> ToUpper unicode (Value child) = ''FROM''
             \<and> fromStageName unicode child \<noteq> []}
    \<and> Code (platformConstRule child platform) = ''FromPlatformFlagConstDisallowed''
    \<and> Severity (platformConstRule child platform) = ''warning''"
proof -
  note full = platformRuleFor_iff [OF assms]
  have a: "ToUpper unicode (Value (children ! i)) = ''FROM''
          \<and> checkPlatformConstant (fromPlatformFlag unicode (children ! i))
          \<and> (fromStageName unicode (children ! i) = []
             \<or> \<not> (\<exists>j < length children. referencedBy unicode children j (fromStageName unicode (children ! i))))
        \<longrightarrow> platformRuleFor unicode (referencedStagesOf unicode children) (children ! i)
              = [platformConstRule (children ! i) (fromPlatformFlag unicode (children ! i))]"
    unfolding full by simp
  have b: "ToUpper unicode (Value (children ! i)) = ''FROM''
          \<and> fromStageName unicode (children ! i) \<noteq> []
          \<and> (\<exists>j < length children. j \<noteq> i
                \<and> referencedBy unicode children j (fromStageName unicode (children ! i)))
        \<longrightarrow> platformRuleFor unicode (referencedStagesOf unicode children) (children ! i) = []"
    unfolding full by auto
  have c: "ToUpper unicode (Value (children ! i)) \<noteq> ''FROM''
          \<or> \<not> checkPlatformConstant (fromPlatformFlag unicode (children ! i))
        \<longrightarrow> platformRuleFor unicode (referencedStagesOf unicode children) (children ! i) = []"
    unfolding full by auto
  have d: "referencedBy unicode children j stageName
          \<longleftrightarrow> ToUpper unicode (Value (children ! j)) = ''FROM''
              \<and> fromImageRef unicode (children ! j) \<noteq> []
              \<and> (if ToLower unicode (fromImageRef unicode (children ! j)) \<in> declaredStageNames unicode children
                 then ToLower unicode stageName = ToLower unicode (fromImageRef unicode (children ! j))
                 else ToLower unicode stageName \<in> declaredStageNames unicode children
                      \<and> HasPrefix (ToLower unicode (fromImageRef unicode (children ! j)))
                                   (extractStagePrefix (ToLower unicode stageName)))"
    by (simp add: referencedBy_def referencesStage_def)
  from a b c d show ?thesis
    using checkPlatformFlagConstDisallowed_concat [of unicode children]
      checkPlatformConstant_iff [of platform] declaredStageNames_eq [of unicode children]
      platform_rule_fields(1,2) [of child platform]
    by (intro conjI)
qed

theorem checkPlatformFlagConstDisallowed_tolerance_witness:
  "ToUpper exampleUnicode (Value (referencedStage ! 0)) = ''FROM''
   \<and> checkPlatformConstant (fromPlatformFlag exampleUnicode (referencedStage ! 0))
   \<and> fromStageName exampleUnicode (referencedStage ! 0) = ''builder''
   \<and> referencedBy exampleUnicode referencedStage 1 ''builder''
   \<and> checkPlatformFlagConstDisallowed exampleUnicode referencedStage = []
   \<and> ToUpper exampleUnicode (Value (unreferencedStage ! 0)) = ''FROM''
   \<and> checkPlatformConstant (fromPlatformFlag exampleUnicode (unreferencedStage ! 0))
   \<and> fromStageName exampleUnicode (unreferencedStage ! 0) = ''builder''
   \<and> \<not> referencedBy exampleUnicode unreferencedStage 0 ''builder''
   \<and> checkPlatformFlagConstDisallowed exampleUnicode unreferencedStage
       = [platformConstRule (unreferencedStage ! 0) ''linux/amd64'']"
proof -
  let ?R = "platformRuleFor exampleUnicode (referencedStagesOf exampleUnicode referencedStage)"
  let ?U = "platformRuleFor exampleUnicode (referencedStagesOf exampleUnicode unreferencedStage)"
  have l: "0 < length referencedStage" "1 < length referencedStage"
    "0 < length unreferencedStage" "length unreferencedStage = 1"
    by (simp_all add: referencedStage_def unreferencedStage_def)
  have f: "ToUpper exampleUnicode (Value (referencedStage ! 0)) = ''FROM''"
    "checkPlatformConstant (fromPlatformFlag exampleUnicode (referencedStage ! 0))"
    "fromStageName exampleUnicode (referencedStage ! 0) = ''builder''"
    "referencedBy exampleUnicode referencedStage 1 ''builder''"
    "\<not> checkPlatformConstant (fromPlatformFlag exampleUnicode (referencedStage ! 1))"
    by code_simp+
  have g: "ToUpper exampleUnicode (Value (unreferencedStage ! 0)) = ''FROM''"
    "checkPlatformConstant (fromPlatformFlag exampleUnicode (unreferencedStage ! 0))"
    "fromStageName exampleUnicode (unreferencedStage ! 0) = ''builder''"
    "fromPlatformFlag exampleUnicode (unreferencedStage ! 0) = ''linux/amd64''"
    "\<not> referencedBy exampleUnicode unreferencedStage 0 ''builder''"
    by code_simp+
  note T0 = checkPlatformFlagConstDisallowed_tolerance
    [OF l(1), where unicode = exampleUnicode and platform = "[]" and j = 0 and stageName = "[]"
       and child = "referencedStage ! 0"]
  note T1 = checkPlatformFlagConstDisallowed_tolerance
    [OF l(2), where unicode = exampleUnicode and platform = "[]" and j = 0 and stageName = "[]"
       and child = "referencedStage ! 0"]
  note U0 = checkPlatformFlagConstDisallowed_tolerance
    [OF l(3), where unicode = exampleUnicode and platform = "[]" and j = 0 and stageName = "[]"
       and child = "unreferencedStage ! 0"]
  have "(1::nat) < length referencedStage \<and> (1::nat) \<noteq> 0
      \<and> referencedBy exampleUnicode referencedStage 1 (fromStageName exampleUnicode (referencedStage ! 0))"
    using l f by simp
  then have "\<exists>j < length referencedStage. j \<noteq> 0
      \<and> referencedBy exampleUnicode referencedStage j (fromStageName exampleUnicode (referencedStage ! 0))"
    by blast
  with f have p0: "ToUpper exampleUnicode (Value (referencedStage ! 0)) = ''FROM''
      \<and> fromStageName exampleUnicode (referencedStage ! 0) \<noteq> []
      \<and> (\<exists>j < length referencedStage. j \<noteq> 0
            \<and> referencedBy exampleUnicode referencedStage j (fromStageName exampleUnicode (referencedStage ! 0)))"
    by simp
  have r0: "?R (referencedStage ! 0) = []"
    using T0 [THEN conjunct2, THEN conjunct2, THEN conjunct1] p0 by (rule mp)
  from f have p1: "ToUpper exampleUnicode (Value (referencedStage ! 1)) \<noteq> ''FROM''
      \<or> \<not> checkPlatformConstant (fromPlatformFlag exampleUnicode (referencedStage ! 1))"
    by simp
  have r1: "?R (referencedStage ! 1) = []"
    using T1 [THEN conjunct2, THEN conjunct2, THEN conjunct2, THEN conjunct1] p1 by (rule mp)
  have "concat (map F referencedStage) = F (referencedStage ! 0) @ F (referencedStage ! 1)"
    for F :: "Node \<Rightarrow> Rule list"
    by (simp add: referencedStage_def)
  with T0 [THEN conjunct1] have ref: "checkPlatformFlagConstDisallowed exampleUnicode referencedStage = []"
    by (simp only: r0 r1 append_Nil)
  have "\<not> (\<exists>j < length unreferencedStage.
           referencedBy exampleUnicode unreferencedStage j (fromStageName exampleUnicode (unreferencedStage ! 0)))"
    using g l by simp
  with g have q0: "ToUpper exampleUnicode (Value (unreferencedStage ! 0)) = ''FROM''
      \<and> checkPlatformConstant (fromPlatformFlag exampleUnicode (unreferencedStage ! 0))
      \<and> (fromStageName exampleUnicode (unreferencedStage ! 0) = []
         \<or> \<not> (\<exists>j < length unreferencedStage.
               referencedBy exampleUnicode unreferencedStage j (fromStageName exampleUnicode (unreferencedStage ! 0))))"
    by blast
  have u0: "?U (unreferencedStage ! 0)
      = [platformConstRule (unreferencedStage ! 0) (fromPlatformFlag exampleUnicode (unreferencedStage ! 0))]"
    using U0 [THEN conjunct2, THEN conjunct1] q0 by (rule mp)
  have "concat (map F unreferencedStage) = F (unreferencedStage ! 0)"
    for F :: "Node \<Rightarrow> Rule list"
    by (simp add: unreferencedStage_def)
  with U0 [THEN conjunct1] have unref: "checkPlatformFlagConstDisallowed exampleUnicode unreferencedStage
      = [platformConstRule (unreferencedStage ! 0) ''linux/amd64'']"
    by (simp only: u0 g(4))
  from f g ref unref show ?thesis by simp
qed

end
